theory Spec2Isabelle
  imports Main
begin

section \<open>JSON values as Python sees them\<close>

text \<open>
  \<^verbatim>\<open>response.json()\<close> yields Python objects built from \<^verbatim>\<open>None\<close>, \<^verbatim>\<open>bool\<close>,
  \<^verbatim>\<open>int\<close>, \<^verbatim>\<open>float\<close>, \<^verbatim>\<open>str\<close>, \<^verbatim>\<open>list\<close> and \<^verbatim>\<open>dict\<close> (with string keys).
  A dict keeps insertion order, so it is an association list; it stands for a Python dict
  when its keys are distinct. A float is given by its \<^verbatim>\<open>repr\<close>, which identifies it;
  the program only ever tests a float for truth and prints it. Characters are the code
  points below 256.
\<close>

datatype json =
    JNull
  | JBool bool
  | JInt int
  | JFloat string
  | JStr string
  | JList "json list"
  | JDict "(string \<times> json) list"

type_synonym pydict = "(string \<times> json) list"

text \<open>The exceptions the modelled code can raise: the class, and what it was raised on.\<close>

datatype exn =
    AttributeError string string  \<comment> \<open>type name, attribute\<close>
  | TypeError string string       \<comment> \<open>type name, operation\<close>
  | KeyError json
  | IndexError
  | ValueError string

definition ebind :: "exn + 'a \<Rightarrow> ('a \<Rightarrow> exn + 'b) \<Rightarrow> exn + 'b" where
  "ebind r f = (case r of Inl e \<Rightarrow> Inl e | Inr x \<Rightarrow> f x)"

fun type_name :: "json \<Rightarrow> string" where
  "type_name JNull = ''NoneType''"
| "type_name (JBool _) = ''bool''"
| "type_name (JInt _) = ''int''"
| "type_name (JFloat _) = ''float''"
| "type_name (JStr _) = ''str''"
| "type_name (JList _) = ''list''"
| "type_name (JDict _) = ''dict''"

fun is_dict :: "json \<Rightarrow> bool" where
  "is_dict (JDict _) = True"
| "is_dict _ = False"

text \<open>Truth value of an object, as \<^verbatim>\<open>if sb:\<close> tests it.\<close>

fun truthy :: "json \<Rightarrow> bool" where
  "truthy JNull = False"
| "truthy (JBool b) = b"
| "truthy (JInt i) = (i \<noteq> 0)"
| "truthy (JFloat r) = (r \<noteq> ''0.0'' \<and> r \<noteq> ''-0.0'')"
| "truthy (JStr s) = (s \<noteq> [])"
| "truthy (JList xs) = (xs \<noteq> [])"
| "truthy (JDict kvs) = (kvs \<noteq> [])"

subsection \<open>Dict operations\<close>

text \<open>\<^verbatim>\<open>d[k] = v\<close>: an existing key keeps its place, a new key goes last.\<close>

fun dict_set :: "pydict \<Rightarrow> string \<Rightarrow> json \<Rightarrow> pydict" where
  "dict_set [] k v = [(k, v)]"
| "dict_set ((k', v') # d) k v = (if k' = k then (k, v) # d else (k', v') # dict_set d k v)"

text \<open>\<^verbatim>\<open>d.update(other)\<close>: the items of \<open>other\<close>, stored in their order.\<close>

fun dict_update :: "pydict \<Rightarrow> pydict \<Rightarrow> pydict" where
  "dict_update d [] = d"
| "dict_update d ((k, v) # other) = dict_update (dict_set d k v) other"

definition dict_get :: "pydict \<Rightarrow> string \<Rightarrow> json \<Rightarrow> json" where
  "dict_get d k dflt = (case map_of d k of Some v \<Rightarrow> v | None \<Rightarrow> dflt)"

text \<open>\<^verbatim>\<open>obj.get(k, dflt)\<close> on any object: only a dict has \<^verbatim>\<open>get\<close>.\<close>

fun py_get :: "json \<Rightarrow> string \<Rightarrow> json \<Rightarrow> exn + json" where
  "py_get (JDict d) k dflt = Inr (dict_get d k dflt)"
| "py_get v k dflt = Inl (AttributeError (type_name v) ''get'')"

text \<open>\<^verbatim>\<open>obj.items()\<close>.\<close>

fun py_items :: "json \<Rightarrow> exn + pydict" where
  "py_items (JDict d) = Inr d"
| "py_items v = Inl (AttributeError (type_name v) ''items'')"

subsection \<open>\<^verbatim>\<open>len\<close>, subscripting, \<^verbatim>\<open>str.replace\<close>, \<^verbatim>\<open>int\<close>\<close>

fun py_len :: "json \<Rightarrow> exn + nat" where
  "py_len (JStr s) = Inr (length s)"
| "py_len (JList xs) = Inr (length xs)"
| "py_len (JDict d) = Inr (length d)"
| "py_len v = Inl (TypeError (type_name v) ''len'')"

text \<open>\<^verbatim>\<open>obj[i]\<close> for a literal index \<open>i \<ge> 0\<close>. A dict of string keys has no key \<open>i\<close>.\<close>

fun py_getitem :: "json \<Rightarrow> nat \<Rightarrow> exn + json" where
  "py_getitem (JList xs) i = (if i < length xs then Inr (xs ! i) else Inl IndexError)"
| "py_getitem (JStr s) i = (if i < length s then Inr (JStr [s ! i]) else Inl IndexError)"
| "py_getitem (JDict d) i = Inl (KeyError (JInt (int i)))"
| "py_getitem v i = Inl (TypeError (type_name v) ''subscript'')"

text \<open>\<^verbatim>\<open>s.replace("frc", "")\<close>: every occurrence, found left to right, is removed.\<close>

fun remove_frc :: "string \<Rightarrow> string" where
  "remove_frc [] = []"
| "remove_frc (c # s) =
     (if take 3 (c # s) = ''frc'' then remove_frc (drop 2 s) else c # remove_frc s)"

fun py_replace_frc :: "json \<Rightarrow> exn + string" where
  "py_replace_frc (JStr s) = Inr (remove_frc s)"
| "py_replace_frc v = Inl (AttributeError (type_name v) ''replace'')"

text \<open>
  \<^verbatim>\<open>int(s)\<close> for a string: white space around, an optional sign, then decimal digits,
  where single underscores may stand between digits. Anything else is a ValueError, and
  so is a string of more digits than the interpreter converts (4300 unless configured).
  The same limit keeps larger integers out of parsed JSON, so \<^verbatim>\<open>str\<close> of an
  integer is modelled without it.
\<close>

definition max_str_digits :: nat where
  "max_str_digits = 4300"

definition is_space :: "char \<Rightarrow> bool" where
  "is_space c = (of_char c \<in> {9, 10, 11, 12, 13, 32, 133, 160 :: nat})"

definition is_digit :: "char \<Rightarrow> bool" where
  "is_digit c = (48 \<le> (of_char c :: nat) \<and> (of_char c :: nat) \<le> 57)"

definition digit_val :: "char \<Rightarrow> int" where
  "digit_val c = int (of_char c) - 48"

text \<open>
  \<open>digits_value after_digit acc s\<close> reads the digit part; \<open>after_digit\<close> says that the
  previous character was a digit, which is where an underscore may stand.
\<close>

fun digits_value :: "bool \<Rightarrow> int \<Rightarrow> string \<Rightarrow> int option" where
  "digits_value after_digit acc [] = (if after_digit then Some acc else None)"
| "digits_value after_digit acc (c # s) =
     (if is_digit c then digits_value True (10 * acc + digit_val c) s
      else if c = CHR ''_'' \<and> after_digit then digits_value False acc s
      else None)"

definition strip_space :: "string \<Rightarrow> string" where
  "strip_space s = rev (dropWhile is_space (rev (dropWhile is_space s)))"

definition py_int :: "string \<Rightarrow> exn + int" where
  "py_int s =
     (let t = strip_space s;
          (neg, ds) = (case t of
                         c # r \<Rightarrow> if c = CHR ''-'' then (True, r)
                                  else if c = CHR ''+'' then (False, r) else (False, t)
                       | [] \<Rightarrow> (False, t))
      in if length (filter is_digit ds) > max_str_digits then Inl (ValueError s)
         else case digits_value False 0 ds of
                None \<Rightarrow> Inl (ValueError s)
              | Some n \<Rightarrow> Inr (if neg then - n else n))"

subsection \<open>\<^verbatim>\<open>str\<close> and \<^verbatim>\<open>repr\<close>, for the f-string of the match identifier\<close>

definition hex_digit :: "nat \<Rightarrow> char" where
  "hex_digit n = (''0123456789abcdef'') ! (n mod 16)"

definition printable :: "char \<Rightarrow> bool" where
  "printable c = (let n = (of_char c :: nat) in 32 \<le> n \<and> \<not> (127 \<le> n \<and> n \<le> 160) \<and> n \<noteq> 173)"

definition repr_char :: "char \<Rightarrow> char \<Rightarrow> string" where
  "repr_char q c =
     (if c = q \<or> c = CHR 0x5C then [CHR 0x5C, c]
      else if c = CHR 0x09 then [CHR 0x5C, CHR ''t'']
      else if c = CHR 0x0A then [CHR 0x5C, CHR ''n'']
      else if c = CHR 0x0D then [CHR 0x5C, CHR ''r'']
      else if printable c then [c]
      else [CHR 0x5C, CHR ''x'', hex_digit (of_char c div 16), hex_digit (of_char c)])"

definition repr_str :: "string \<Rightarrow> string" where
  "repr_str s =
     (let q = (if CHR 0x27 \<in> set s \<and> CHR 0x22 \<notin> set s then CHR 0x22 else CHR 0x27)
      in [q] @ concat (map (repr_char q) s) @ [q])"

fun digits_of_nat :: "nat \<Rightarrow> string" where
  "digits_of_nat n =
     (if n < 10 then [hex_digit n] else digits_of_nat (n div 10) @ [hex_digit (n mod 10)])"

declare digits_of_nat.simps [simp del]

definition str_of_int :: "int \<Rightarrow> string" where
  "str_of_int i = (if i < 0 then ''-'' else '''') @ digits_of_nat (nat \<bar>i\<bar>)"

fun join :: "string \<Rightarrow> string list \<Rightarrow> string" where
  "join sep [] = []"
| "join sep [x] = x"
| "join sep (x # y # ys) = x @ sep @ join sep (y # ys)"

fun py_repr :: "json \<Rightarrow> string"
  and repr_list :: "json list \<Rightarrow> string list"
  and repr_items :: "(string \<times> json) list \<Rightarrow> string list" where
  "py_repr JNull = ''None''"
| "py_repr (JBool b) = (if b then ''True'' else ''False'')"
| "py_repr (JInt i) = str_of_int i"
| "py_repr (JFloat r) = r"
| "py_repr (JStr s) = repr_str s"
| "py_repr (JList xs) = ''['' @ join '', '' (repr_list xs) @ '']''"
| "py_repr (JDict d) = ''{'' @ join '', '' (repr_items d) @ ''}''"
| "repr_list [] = []"
| "repr_list (x # xs) = py_repr x # repr_list xs"
| "repr_items [] = []"
| "repr_items ((k, v) # d) = (repr_str k @ '': '' @ py_repr v) # repr_items d"

text \<open>\<^verbatim>\<open>str(obj)\<close>, which an f-string field \<^verbatim>\<open>{obj}\<close> inserts.\<close>

fun py_str :: "json \<Rightarrow> string" where
  "py_str (JStr s) = s"
| "py_str v = py_repr v"

section \<open>The row flattener\<close>

definition IGNORE_TOP_KEYS :: "string set" where
  "IGNORE_TOP_KEYS = {''actual_time'', ''comp_level'', ''match_number'', ''key'',
     ''post_result_time'', ''predicted_time'', ''set_number'', ''time'', ''videos''}"

definition IGNORE_REEF_KEYS :: "string set" where
  "IGNORE_REEF_KEYS = {''botRow'', ''midRow'', ''topRow''}"

subsection \<open>\<^verbatim>\<open>process_score_breakdown\<close>\<close>

text \<open>The inner loop over \<^verbatim>\<open>value.items()\<close> of a reef sub-object.\<close>

fun reef_loop :: "string \<Rightarrow> pydict \<Rightarrow> pydict \<Rightarrow> pydict" where
  "reef_loop key [] flat = flat"
| "reef_loop key ((sub_key, sub_val) # rest) flat =
     reef_loop key rest
       (if sub_key \<notin> IGNORE_REEF_KEYS then dict_set flat (key @ ''_'' @ sub_key) sub_val
        else flat)"

text \<open>The outer loop over \<^verbatim>\<open>sb.items()\<close>.\<close>

fun sb_loop :: "pydict \<Rightarrow> pydict \<Rightarrow> pydict" where
  "sb_loop [] flat = flat"
| "sb_loop ((key, value) # rest) flat =
     (if key = ''totalPoints'' then sb_loop rest flat
      else if key \<in> set [''autoReef'', ''teleopReef''] \<and> is_dict value
      then sb_loop rest (reef_loop key (case value of JDict d \<Rightarrow> d | _ \<Rightarrow> []) flat)
      else sb_loop rest (dict_set flat key value))"

definition process_score_breakdown :: "json \<Rightarrow> exn + pydict" where
  "process_score_breakdown sb = ebind (py_items sb) (\<lambda>items. Inr (sb_loop items []))"

subsection \<open>\<^verbatim>\<open>process_match\<close>\<close>

text \<open>
  The expression under each \<^verbatim>\<open>try\<close>:
  \<^verbatim>\<open>int(team_keys[i].replace("frc", "")) if len(team_keys) > i else None\<close>.
\<close>

definition bot_expr :: "json \<Rightarrow> nat \<Rightarrow> exn + json" where
  "bot_expr team_keys i =
     ebind (py_len team_keys) (\<lambda>n.
       if n > i then
         ebind (py_getitem team_keys i) (\<lambda>tk.
         ebind (py_replace_frc tk) (\<lambda>s.
         ebind (py_int s) (\<lambda>num. Inr (JInt num))))
       else Inr JNull)"

text \<open>\<^verbatim>\<open>try: row["botN"] = ... except: row["botN"] = None\<close>: a bare except catches all.\<close>

definition extract_bot :: "json \<Rightarrow> nat \<Rightarrow> json" where
  "extract_bot team_keys i = (case bot_expr team_keys i of Inl e \<Rightarrow> JNull | Inr v \<Rightarrow> v)"

text \<open>The loop copying the top-level keys into \<^verbatim>\<open>common_data\<close>.\<close>

fun common_loop :: "pydict \<Rightarrow> pydict \<Rightarrow> pydict" where
  "common_loop [] common_data = common_data"
| "common_loop ((k, v) # rest) common_data =
     common_loop rest
       (if k \<notin> IGNORE_TOP_KEYS \<and> k \<notin> set [''alliances'', ''score_breakdown'']
        then dict_set common_data k v else common_data)"

text \<open>The body of the loop over the two colours: one row, or the exception raised.\<close>

definition alliance_row :: "string \<Rightarrow> pydict \<Rightarrow> json \<Rightarrow> json \<Rightarrow> exn + pydict" where
  "alliance_row alliance_color common_data alliances score_breakdown =
     (let row = dict_set common_data ''alliance'' (JStr alliance_color) in
      ebind (py_get alliances alliance_color (JDict [])) (\<lambda>alliance_data.
      ebind (py_get alliance_data ''team_keys'' (JList [])) (\<lambda>team_keys.
      let row = dict_set row ''bot1'' (extract_bot team_keys 0);
          row = dict_set row ''bot2'' (extract_bot team_keys 1);
          row = dict_set row ''bot3'' (extract_bot team_keys 2) in
      ebind (py_get alliance_data ''score'' JNull) (\<lambda>score.
      let row = dict_set row ''alliance_score'' score in
      ebind (py_get score_breakdown alliance_color (JDict [])) (\<lambda>sb.
      if truthy sb
      then ebind (process_score_breakdown sb) (\<lambda>flat_sb. Inr (dict_update row flat_sb))
      else Inr row)))))"

fun alliance_loop ::
  "string list \<Rightarrow> pydict \<Rightarrow> json \<Rightarrow> json \<Rightarrow> pydict list \<Rightarrow> exn + pydict list" where
  "alliance_loop [] common_data alliances score_breakdown output_rows = Inr output_rows"
| "alliance_loop (c # cs) common_data alliances score_breakdown output_rows =
     ebind (alliance_row c common_data alliances score_breakdown) (\<lambda>row.
       alliance_loop cs common_data alliances score_breakdown (output_rows @ [row]))"

text \<open>
  \<^verbatim>\<open>match.get(k)\<close> is \<^verbatim>\<open>None\<close> for an absent key as for a null value. Past the guard
  both keys are present, so \<^verbatim>\<open>match["alliances"]\<close> is the value \<^verbatim>\<open>get\<close> returned.
\<close>

fun process_match :: "json \<Rightarrow> exn + pydict list" where
  "process_match (JDict m) =
     (if dict_get m ''alliances'' JNull = JNull \<or> dict_get m ''score_breakdown'' JNull = JNull
      then Inr []
      else
        let common_data = common_loop m [];
            comp_level = dict_get m ''comp_level'' (JStr '''');
            match_number = dict_get m ''match_number'' (JStr '''');
            common_data = dict_set common_data ''match''
                            (JStr (py_str comp_level @ '' '' @ py_str match_number));
            alliances = dict_get m ''alliances'' JNull;
            score_breakdown = dict_get m ''score_breakdown'' JNull
        in alliance_loop [''red'', ''blue''] common_data alliances score_breakdown [])"
| "process_match v = Inl (AttributeError (type_name v) ''get'')"

section \<open>The event fetch adapter\<close>

text \<open>
  The transport is outside the program: a response is its status code, what
  \<^verbatim>\<open>response.json()\<close> returns (\<open>None\<close> when it raises) and the body text.
\<close>

record response =
  status_code :: int
  json_body :: "json option"
  body_text :: string

text \<open>
  The messages appended to \<^verbatim>\<open>error_list\<close> are f-strings; a message is kept as the values
  its f-string prints: for a skipped match the index, the event key, the match data and the
  exception.
\<close>

datatype error_msg =
    ParseError string string
  | MatchError nat string json exn
  | FetchError string int string

text \<open>
  What \<^verbatim>\<open>for i, match in enumerate(matches)\<close> iterates over: the elements of a list, the
  keys of a dict, the characters of a string; anything else is not iterable.
\<close>

fun py_iter :: "json \<Rightarrow> exn + json list" where
  "py_iter (JList xs) = Inr xs"
| "py_iter (JDict d) = Inr (map (\<lambda>kv. JStr (fst kv)) d)"
| "py_iter (JStr s) = Inr (map (\<lambda>c. JStr [c]) s)"
| "py_iter v = Inl (TypeError (type_name v) ''iter'')"

text \<open>The loop over the matches: \<^verbatim>\<open>except Exception\<close> records the error and goes on.\<close>

fun match_loop ::
  "nat \<Rightarrow> json list \<Rightarrow> string \<Rightarrow> pydict list \<Rightarrow> error_msg list
     \<Rightarrow> pydict list \<times> error_msg list" where
  "match_loop i [] event_key rows error_list = (rows, error_list)"
| "match_loop i (match # rest) event_key rows error_list =
     (case process_match match of
        Inr processed \<Rightarrow> match_loop (Suc i) rest event_key (rows @ processed) error_list
      | Inl e \<Rightarrow>
          match_loop (Suc i) rest event_key rows
            (error_list @ [MatchError i event_key match e]))"

definition fetch_event_matches ::
  "string \<Rightarrow> error_msg list \<Rightarrow> response \<Rightarrow> exn + (pydict list \<times> error_msg list)" where
  "fetch_event_matches event_key error_list resp =
     (if status_code resp = 200 then
        (case json_body resp of
           None \<Rightarrow> Inr ([], error_list @ [ParseError event_key (body_text resp)])
         | Some matches \<Rightarrow>
             ebind (py_iter matches) (\<lambda>ms. Inr (match_loop 0 ms event_key [] error_list)))
      else
        Inr ([], error_list @ [FetchError event_key (status_code resp) (body_text resp)]))"

section \<open>The dataset\<close>

text \<open>
  A \<^verbatim>\<open>DataFrame\<close> is its column labels and its rows, each row holding one cell per column.
  A missing cell is NaN.
\<close>

record dataframe =
  columns :: "string list"
  data_rows :: "json list list"

definition nan :: json where
  "nan = JFloat ''nan''"

definition cell :: "string list \<Rightarrow> json list \<Rightarrow> string \<Rightarrow> json" where
  "cell cols r c = (case map_of (zip cols r) c of Some v \<Rightarrow> v | None \<Rightarrow> nan)"

text \<open>
  What pandas does to the cells it is given is not part of this program, and the model
  takes it as given, for any pandas. When a frame is built or frames are concatenated,
  the cells of a column are converted to the dtype pandas chooses for that column: in a
  numeric column with gaps integers become floats and \<^verbatim>\<open>None\<close> becomes NaN, in a column
  of objects the cells stay as they are. A sheet read back is not the frame that was
  written either: an empty string and \<^verbatim>\<open>None\<close> come back as NaN, a list as its text.
  So \<open>frame_cell pd c v\<close> is the cell that \<^verbatim>\<open>pd.DataFrame\<close> stores for the value \<open>v\<close> in
  column \<open>c\<close>, \<open>concat_cell pd c v\<close> the cell that \<^verbatim>\<open>pd.concat\<close> stores, and
  \<open>read_excel pd df\<close> the frame that \<^verbatim>\<open>pd.read_excel\<close> returns from the sheet to which
  \<open>df\<close> was written.
\<close>

record pandas =
  frame_cell :: "string \<Rightarrow> json \<Rightarrow> json"
  concat_cell :: "string \<Rightarrow> json \<Rightarrow> json"
  read_excel :: "dataframe \<Rightarrow> dataframe"

text \<open>The cells of a row, each converted for its column.\<close>

definition convert_row :: "(string \<Rightarrow> json \<Rightarrow> json) \<Rightarrow> string list \<Rightarrow> json list \<Rightarrow> json list" where
  "convert_row f cols r = map (\<lambda>cv. f (fst cv) (snd cv)) (zip cols r)"

text \<open>
  \<^verbatim>\<open>pd.DataFrame(all_rows)\<close>: the columns are the keys in the order first seen; a row has
  NaN where it lacks a key.
\<close>

fun union_keys :: "pydict list \<Rightarrow> string list \<Rightarrow> string list" where
  "union_keys [] cols = cols"
| "union_keys (r # rs) cols =
     union_keys rs (fold (\<lambda>kv cs. if fst kv \<in> set cs then cs else cs @ [fst kv]) r cols)"

definition DataFrame :: "pandas \<Rightarrow> pydict list \<Rightarrow> dataframe" where
  "DataFrame pd all_rows =
     (let cols = union_keys all_rows []
      in \<lparr>columns = cols,
          data_rows = map (\<lambda>r. convert_row (frame_cell pd) cols
                                  (map (\<lambda>c. dict_get r c nan) cols)) all_rows\<rparr>)"

text \<open>\<^verbatim>\<open>df[c]\<close> for one label: the column's cells, or KeyError.\<close>

definition get_column :: "dataframe \<Rightarrow> string \<Rightarrow> exn + json list" where
  "get_column df c =
     (if c \<in> set (columns df) then Inr (map (\<lambda>r. cell (columns df) r c) (data_rows df))
      else Inl (KeyError (JStr c)))"

text \<open>
  \<^verbatim>\<open>Series.unique()\<close>: the distinct values in the order first seen. It hashes the cells,
  and a list or a dict has no hash: TypeError.
\<close>

fun hashable :: "json \<Rightarrow> bool" where
  "hashable (JList _) = False"
| "hashable (JDict _) = False"
| "hashable _ = True"

fun first_seen :: "json list \<Rightarrow> json list" where
  "first_seen [] = []"
| "first_seen (x # xs) = x # first_seen (filter (\<lambda>y. y \<noteq> x) xs)"

definition unique :: "json list \<Rightarrow> exn + json list" where
  "unique xs =
     (case filter (\<lambda>x. \<not> hashable x) xs of
        x # _ \<Rightarrow> Inl (TypeError (type_name x) ''hash'')
      | [] \<Rightarrow> Inr (first_seen xs))"

text \<open>\<^verbatim>\<open>Series.isin(keys)\<close> compares cells with equality, NaN matching NaN.\<close>

definition isin :: "json list \<Rightarrow> json list \<Rightarrow> bool list" where
  "isin vs ks = map (\<lambda>v. v \<in> set ks) vs"

text \<open>\<^verbatim>\<open>df[~mask]\<close>: the rows whose mask entry is false.\<close>

definition drop_masked :: "dataframe \<Rightarrow> bool list \<Rightarrow> dataframe" where
  "drop_masked df msk =
     df\<lparr>data_rows := map fst (filter (\<lambda>rm. \<not> snd rm) (zip (data_rows df) msk))\<rparr>"

text \<open>
  \<^verbatim>\<open>pd.concat([a, b], ignore_index=True)\<close>: the columns of \<open>a\<close>, then the new ones of
  \<open>b\<close>; the rows of \<open>a\<close>, then those of \<open>b\<close>, with NaN in the columns a row lacks, and
  every cell converted for its column.
\<close>

definition realign :: "string list \<Rightarrow> string list \<Rightarrow> json list \<Rightarrow> json list" where
  "realign old new r = map (cell old r) new"

definition concat_frames :: "pandas \<Rightarrow> dataframe \<Rightarrow> dataframe \<Rightarrow> dataframe" where
  "concat_frames pd a b =
     (let cols = columns a @ filter (\<lambda>c. c \<notin> set (columns a)) (columns b)
      in \<lparr>columns = cols,
          data_rows =
            map (\<lambda>r. convert_row (concat_cell pd) cols (realign (columns a) cols r))
              (data_rows a) @
            map (\<lambda>r. convert_row (concat_cell pd) cols (realign (columns b) cols r))
              (data_rows b)\<rparr>)"

text \<open>
  \<^verbatim>\<open>df[labels]\<close> for a list of labels: for each label in turn, every column carrying it;
  KeyError when a label is no column.
\<close>

definition positions :: "string list \<Rightarrow> string \<Rightarrow> nat list" where
  "positions cols l = filter (\<lambda>i. cols ! i = l) [0..<length cols]"

definition select_columns :: "dataframe \<Rightarrow> string list \<Rightarrow> exn + dataframe" where
  "select_columns df labels =
     (case filter (\<lambda>l. l \<notin> set (columns df)) labels of
        l # _ \<Rightarrow> Inl (KeyError (JStr l))
      | [] \<Rightarrow>
          let idx = concat (map (positions (columns df)) labels)
          in Inr \<lparr>columns = map (\<lambda>i. columns df ! i) idx,
                  data_rows = map (\<lambda>r. map (\<lambda>i. r ! i) idx) (data_rows df)\<rparr>)"

subsection \<open>\<^verbatim>\<open>reorder_columns\<close>\<close>

text \<open>The loop over the three pinned labels; \<^verbatim>\<open>cols.remove(col)\<close> takes the first one out.\<close>

fun pin_loop :: "string list \<Rightarrow> string list \<Rightarrow> string list \<Rightarrow> string list \<times> string list" where
  "pin_loop [] cols desired_order = (desired_order, cols)"
| "pin_loop (col # rest) cols desired_order =
     (if col \<in> set cols then pin_loop rest (remove1 col cols) (desired_order @ [col])
      else pin_loop rest cols desired_order)"

definition new_order :: "string list \<Rightarrow> string list" where
  "new_order cols =
     (case pin_loop [''event_key'', ''match'', ''winning_alliance''] cols [] of
        (desired_order, cols') \<Rightarrow> desired_order @ cols')"

definition reorder_columns :: "dataframe \<Rightarrow> exn + dataframe" where
  "reorder_columns df = select_columns df (new_order (columns df))"

subsection \<open>\<^verbatim>\<open>update_file\<close>\<close>

text \<open>
  The spreadsheet file is the state: \<open>None\<close> when it does not exist, else the frame last
  written to it; \<^verbatim>\<open>existing_df\<close> is that frame as read back. An exception leaves the file
  as it was, since the file is written last.
\<close>

type_synonym file_state = "dataframe option"

definition merged_frame ::
  "pandas \<Rightarrow> dataframe \<Rightarrow> string \<Rightarrow> file_state \<Rightarrow> exn + dataframe" where
  "merged_frame pd new_data_df mode file =
     (case file of
        None \<Rightarrow> Inr new_data_df
      | Some written \<Rightarrow>
          if mode = ''replace'' then Inr new_data_df
          else
            let existing_df = read_excel pd written in
            ebind (get_column new_data_df ''event_key'') (\<lambda>new_keys.
            ebind (unique new_keys) (\<lambda>keys_to_replace.
            ebind (get_column existing_df ''event_key'') (\<lambda>old_keys.
            let updated_df = drop_masked existing_df (isin old_keys keys_to_replace)
            in Inr (concat_frames pd updated_df new_data_df)))))"

definition update_file ::
  "pandas \<Rightarrow> dataframe \<Rightarrow> string \<Rightarrow> file_state \<Rightarrow> (exn + unit) \<times> file_state" where
  "update_file pd new_data_df mode file =
     (case ebind (merged_frame pd new_data_df mode file) reorder_columns of
        Inl e \<Rightarrow> (Inl e, file)
      | Inr df \<Rightarrow> (Inr (), Some df))"

section \<open>The batch pipeline\<close>

text \<open>
  The two operator actions. The events are given by their keys, the transport by the
  response it returns for an event key; the message boxes shown are returned in order.
  Both actions end alike, with their own mode and messages: \<open>write_batch\<close> is that
  common end. An exception that leaves an action leaves the file as it was.
\<close>

datatype dialog =
    ShowInfo string string
  | ShowError string string
  | ShowWarning string string
  | ShowErrors "error_msg list"

fun collect_loop ::
  "string list \<Rightarrow> (string \<Rightarrow> response) \<Rightarrow> pydict list \<Rightarrow> error_msg list
     \<Rightarrow> exn + (pydict list \<times> error_msg list)" where
  "collect_loop [] transport all_rows error_list = Inr (all_rows, error_list)"
| "collect_loop (event_key # rest) transport all_rows error_list =
     ebind (fetch_event_matches event_key error_list (transport event_key)) (\<lambda>(rows, errs).
       collect_loop rest transport (all_rows @ rows) errs)"

definition write_batch ::
  "pandas \<Rightarrow> string \<Rightarrow> string \<Rightarrow> string \<Rightarrow> pydict list \<Rightarrow> error_msg list \<Rightarrow> file_state
     \<Rightarrow> (exn + dialog list) \<times> file_state" where
  "write_batch pd mode done_msg none_msg all_rows error_list file =
     (let errors_shown = (if error_list \<noteq> [] then [ShowErrors error_list] else []) in
      if all_rows \<noteq> [] then
        (case update_file pd (DataFrame pd all_rows) mode file of
           (Inl e, file') \<Rightarrow> (Inl e, file')
         | (Inr u, file') \<Rightarrow> (Inr (ShowInfo ''Success'' done_msg # errors_shown), file'))
      else (Inr (ShowError ''Error'' none_msg # errors_shown), file))"

definition load_all_events ::
  "pandas \<Rightarrow> string list \<Rightarrow> (string \<Rightarrow> response) \<Rightarrow> file_state
     \<Rightarrow> (exn + dialog list) \<times> file_state" where
  "load_all_events pd available_events transport file =
     (case collect_loop available_events transport [] [] of
        Inl e \<Rightarrow> (Inl e, file)
      | Inr (all_rows, error_list) \<Rightarrow>
          write_batch pd ''replace'' ''File replaced with all TBA events data.''
            ''No data fetched.'' all_rows error_list file)"

definition add_replace_selected ::
  "pandas \<Rightarrow> string list \<Rightarrow> (string \<Rightarrow> response) \<Rightarrow> file_state
     \<Rightarrow> (exn + dialog list) \<times> file_state" where
  "add_replace_selected pd selected transport file =
     (if selected = [] then (Inr [ShowWarning ''No Selection'' ''No events selected.''], file)
      else
        (case collect_loop selected transport [] [] of
           Inl e \<Rightarrow> (Inl e, file)
         | Inr (all_rows, error_list) \<Rightarrow>
             write_batch pd ''update'' ''Selected events updated in file.''
               ''No data fetched for selected events.'' all_rows error_list file))"

section \<open>Notions used in the statements\<close>

text \<open>
  The keys of a dict; when a match is complete, that is, passes the guard of
  \<^verbatim>\<open>process_match\<close>; and when its alliance data have the shape the loop body relies on:
  \<^verbatim>\<open>alliances\<close> and \<^verbatim>\<open>score_breakdown\<close> are dicts, the entry of each colour in
  \<^verbatim>\<open>alliances\<close> is absent or a dict, and its entry in \<^verbatim>\<open>score_breakdown\<close> is absent, a
  dict, or false when tested (\<^verbatim>\<open>None\<close>, \<^verbatim>\<open>0\<close>, an empty string or list).
\<close>

definition keys :: "pydict \<Rightarrow> string set" where
  "keys d = fst ` set d"

definition complete :: "pydict \<Rightarrow> bool" where
  "complete m =
     (dict_get m ''alliances'' JNull \<noteq> JNull \<and> dict_get m ''score_breakdown'' JNull \<noteq> JNull)"

definition side_breakdown :: "json \<Rightarrow> string \<Rightarrow> json" where
  "side_breakdown score_breakdown c =
     (case score_breakdown of JDict s \<Rightarrow> dict_get s c (JDict []) | _ \<Rightarrow> JNull)"

definition colour_ok :: "json \<Rightarrow> json \<Rightarrow> string \<Rightarrow> bool" where
  "colour_ok alliances score_breakdown c =
     ((case alliances of JDict a \<Rightarrow> is_dict (dict_get a c (JDict [])) | _ \<Rightarrow> False) \<and>
      is_dict score_breakdown \<and>
      (is_dict (side_breakdown score_breakdown c) \<or> \<not> truthy (side_breakdown score_breakdown c)))"

definition well_shaped :: "pydict \<Rightarrow> bool" where
  "well_shaped m =
     (colour_ok (dict_get m ''alliances'' JNull) (dict_get m ''score_breakdown'' JNull) ''red'' \<and>
      colour_ok (dict_get m ''alliances'' JNull) (dict_get m ''score_breakdown'' JNull) ''blue'')"

definition reef_name :: "string \<Rightarrow> bool" where
  "reef_name k = (take 9 k = ''autoReef_'' \<or> take 11 k = ''teleopReef_'')"

text \<open>
  The row \<^verbatim>\<open>process_match\<close> builds for one colour of a well-shaped match, written out:
  the common fields, then the five alliance fields, then the flattened breakdown.
\<close>

definition base_row :: "string \<Rightarrow> pydict \<Rightarrow> pydict \<Rightarrow> pydict" where
  "base_row c common_data alliance_data =
     (let team_keys = dict_get alliance_data ''team_keys'' (JList []) in
      dict_set (dict_set (dict_set (dict_set (dict_set common_data
        ''alliance'' (JStr c))
        ''bot1'' (extract_bot team_keys 0))
        ''bot2'' (extract_bot team_keys 1))
        ''bot3'' (extract_bot team_keys 2))
        ''alliance_score'' (dict_get alliance_data ''score'' JNull))"

definition flat_breakdown :: "json \<Rightarrow> pydict" where
  "flat_breakdown sb = (case sb of JDict d \<Rightarrow> sb_loop d [] | _ \<Rightarrow> [])"

definition alliance_data_of :: "json \<Rightarrow> string \<Rightarrow> pydict" where
  "alliance_data_of alliances c =
     (case alliances of
        JDict a \<Rightarrow> (case dict_get a c (JDict []) of JDict ad \<Rightarrow> ad | _ \<Rightarrow> [])
      | _ \<Rightarrow> [])"

definition expected_row :: "string \<Rightarrow> pydict \<Rightarrow> json \<Rightarrow> json \<Rightarrow> pydict" where
  "expected_row c common_data alliances score_breakdown =
     dict_update (base_row c common_data (alliance_data_of alliances c))
       (flat_breakdown (side_breakdown score_breakdown c))"

definition common_fields :: "pydict \<Rightarrow> pydict" where
  "common_fields m =
     dict_set (common_loop m []) ''match''
       (JStr (py_str (dict_get m ''comp_level'' (JStr '''')) @ '' '' @
              py_str (dict_get m ''match_number'' (JStr ''''))))"

definition expected_rows :: "pydict \<Rightarrow> pydict list" where
  "expected_rows m =
     map (\<lambda>c. expected_row c (common_fields m) (dict_get m ''alliances'' JNull)
                 (dict_get m ''score_breakdown'' JNull)) [''red'', ''blue'']"

definition breakdown_keys :: "pydict \<Rightarrow> string \<Rightarrow> string set" where
  "breakdown_keys m c =
     keys (case side_breakdown (dict_get m ''score_breakdown'' JNull) c of
             JDict d \<Rightarrow> d | _ \<Rightarrow> [])"

text \<open>The team keys of a colour, as the loop body reads them.\<close>

definition team_keys_of :: "pydict \<Rightarrow> string \<Rightarrow> json" where
  "team_keys_of m c =
     dict_get (alliance_data_of (dict_get m ''alliances'' JNull) c) ''team_keys'' (JList [])"

text \<open>
  What one match contributes to an event's rows and errors, and a response that carries a
  list of matches.
\<close>

definition rows_of :: "json \<Rightarrow> pydict list" where
  "rows_of match = (case process_match match of Inr rs \<Rightarrow> rs | Inl e \<Rightarrow> [])"

fun errors_from :: "nat \<Rightarrow> string \<Rightarrow> json list \<Rightarrow> error_msg list" where
  "errors_from i event_key [] = []"
| "errors_from i event_key (match # rest) =
     (case process_match match of
        Inl e \<Rightarrow> [MatchError i event_key match e]
      | Inr rs \<Rightarrow> []) @ errors_from (Suc i) event_key rest"

definition ok_response :: "json list \<Rightarrow> response" where
  "ok_response matches = \<lparr>status_code = 200, json_body = Some (JList matches), body_text = []\<rparr>"

text \<open>
  A frame is well formed when its labels are distinct and every row has one cell per
  label, as frames built from dict rows, read from a sheet or concatenated are. A row is
  viewed as the function from labels to cells, NaN where the frame has no such column, so
  that a row padded with NaN for new columns is the same row.
\<close>

definition wf_frame :: "dataframe \<Rightarrow> bool" where
  "wf_frame df =
     (distinct (columns df) \<and> (\<forall>r \<in> set (data_rows df). length r = length (columns df)))"

definition row_views :: "dataframe \<Rightarrow> (string \<Rightarrow> json) list" where
  "row_views df = map (cell (columns df)) (data_rows df)"

definition event_of :: "(string \<Rightarrow> json) \<Rightarrow> json" where
  "event_of v = v ''event_key''"

definition triple :: "(string \<Rightarrow> json) \<Rightarrow> json \<times> json \<times> json" where
  "triple v = (v ''event_key'', v ''match'', v ''alliance'')"

definition unique_triples :: "dataframe \<Rightarrow> bool" where
  "unique_triples df = distinct (map triple (row_views df))"

definition pinned :: "string list" where
  "pinned = [''event_key'', ''match'', ''winning_alliance'']"

text \<open>
  A row after the conversion of its cells, and two things a conversion or a cell may be
  asked for: pandas leaves a string cell as it is (a column with a string in it is a
  column of objects), and a cell that is a string can be hashed and compared.
\<close>

definition converted ::
  "(string \<Rightarrow> json \<Rightarrow> json) \<Rightarrow> string list \<Rightarrow> (string \<Rightarrow> json) \<Rightarrow> string \<Rightarrow> json" where
  "converted f cols v = (\<lambda>c. if c \<in> set cols then f c (v c) else nan)"

definition keeps_strings :: "(string \<Rightarrow> json \<Rightarrow> json) \<Rightarrow> bool" where
  "keeps_strings f = (\<forall>c s. f c (JStr s) = JStr s)"

fun is_str :: "json \<Rightarrow> bool" where
  "is_str (JStr _) = True"
| "is_str _ = False"

definition string_triples :: "dataframe \<Rightarrow> bool" where
  "string_triples df =
     (\<forall>v \<in> set (row_views df).
        is_str (v ''event_key'') \<and> is_str (v ''match'') \<and> is_str (v ''alliance''))"

text \<open>
  The matches of a batch: those of every response that was fetched and parsed, in the
  order the pipeline visits them. A match contributes rows when it is a complete,
  well-shaped mapping. Its rows are told from those of other matches by its event key
  and by the match identifier built from \<^verbatim>\<open>comp_level\<close> and \<^verbatim>\<open>match_number\<close>, as long as
  its top-level keys are distinct, as those of a dict are, the event key is a string and
  no breakdown names a field \<^verbatim>\<open>event_key\<close>, \<^verbatim>\<open>match\<close> or \<^verbatim>\<open>alliance\<close>.
\<close>

definition response_matches :: "response \<Rightarrow> json list" where
  "response_matches resp =
     (if status_code resp = 200 then
        (case json_body resp of
           None \<Rightarrow> []
         | Some body \<Rightarrow> (case py_iter body of Inl e \<Rightarrow> [] | Inr ms \<Rightarrow> ms))
      else [])"

definition iterable_body :: "response \<Rightarrow> bool" where
  "iterable_body resp =
     (case json_body resp of
        None \<Rightarrow> True
      | Some body \<Rightarrow> status_code resp \<noteq> 200 \<or> (case py_iter body of Inl e \<Rightarrow> False | Inr ms \<Rightarrow> True))"

definition batch_matches :: "string list \<Rightarrow> (string \<Rightarrow> response) \<Rightarrow> json list" where
  "batch_matches events transport = concat (map (\<lambda>ek. response_matches (transport ek)) events)"

fun contributing :: "json \<Rightarrow> bool" where
  "contributing (JDict m) = (complete m \<and> well_shaped m)"
| "contributing _ = False"

fun match_id :: "json \<Rightarrow> json \<times> string" where
  "match_id (JDict m) =
     (dict_get m ''event_key'' nan,
      py_str (dict_get m ''comp_level'' (JStr '''')) @ '' '' @
      py_str (dict_get m ''match_number'' (JStr '''')))"
| "match_id _ = (nan, [])"

fun names_kept :: "json \<Rightarrow> bool" where
  "names_kept (JDict m) =
     (distinct (map fst m) \<and> is_str (dict_get m ''event_key'' nan) \<and>
      breakdown_keys m ''red'' \<inter> {''event_key'', ''match'', ''alliance''} = {} \<and>
      breakdown_keys m ''blue'' \<inter> {''event_key'', ''match'', ''alliance''} = {})"
| "names_kept _ = False"

definition identified :: "json list \<Rightarrow> bool" where
  "identified ms =
     (distinct (map match_id (filter contributing ms)) \<and>
      (\<forall>m \<in> set (filter contributing ms). names_kept m))"

definition key3 :: "pydict \<Rightarrow> json \<times> json \<times> json" where
  "key3 r = (dict_get r ''event_key'' nan, dict_get r ''match'' nan, dict_get r ''alliance'' nan)"

definition dataset_ok :: "dataframe \<Rightarrow> bool" where
  "dataset_ok df =
     (wf_frame df \<and> ''event_key'' \<in> set (columns df) \<and> unique_triples df \<and> string_triples df)"

section \<open>Example inputs\<close>

definition match_qm5 :: pydict where
  "match_qm5 =
     [(''key'', JStr ''2025demo_qm5''), (''event_key'', JStr ''2025demo''),
      (''comp_level'', JStr ''qm''), (''set_number'', JInt 1), (''match_number'', JInt 5),
      (''winning_alliance'', JStr ''red''),
      (''alliances'', JDict
         [(''red'', JDict [(''score'', JInt 120),
             (''team_keys'', JList [JStr ''frc254'', JStr ''frc1678'', JStr ''frc118''])]),
          (''blue'', JDict [(''score'', JInt 98),
             (''team_keys'', JList [JStr ''frc971'', JInt 3])])]),
      (''score_breakdown'', JDict
         [(''red'', JDict [(''totalPoints'', JInt 120),
             (''autoReef'', JDict [(''botRow'', JInt 1), (''algae'', JInt 2)]),
             (''foo'', JInt 3)]),
          (''blue'', JDict [(''totalPoints'', JInt 98), (''foo'', JInt 1)])])]"

definition match_colliding :: pydict where
  "match_colliding =
     [(''event_key'', JStr ''2025demo''), (''comp_level'', JStr ''qm''),
      (''match_number'', JInt 6),
      (''alliances'', JDict [(''red'', JDict [(''score'', JInt 7)])]),
      (''score_breakdown'', JDict
         [(''red'', JDict [(''alliance'', JStr ''blue''), (''match'', JStr ''final'')]),
          (''blue'', JDict [(''alliance'', JStr ''blue'')])])]"

definition match_list_breakdown :: pydict where
  "match_list_breakdown =
     [(''event_key'', JStr ''2025demo''),
      (''alliances'', JDict []),
      (''score_breakdown'', JDict [(''red'', JList [JInt 1])])]"

definition match_top_totalPoints :: pydict where
  "match_top_totalPoints =
     [(''totalPoints'', JInt 5), (''alliances'', JDict []), (''score_breakdown'', JDict [])]"

definition match_no_breakdown :: pydict where
  "match_no_breakdown =
     [(''event_key'', JStr ''2025demo''), (''alliances'', JDict []),
      (''score_breakdown'', JNull)]"

definition frame_existing :: dataframe where
  "frame_existing =
     \<lparr>columns = [''event_key'', ''match'', ''winning_alliance'', ''alliance'', ''foo''],
      data_rows =
        [[JStr ''2025aaa'', JStr ''qm 1'', JStr ''red'', JStr ''red'', JInt 1],
         [JStr ''2025aaa'', JStr ''qm 1'', JStr ''red'', JStr ''blue'', JInt 2],
         [JStr ''2025bbb'', JStr ''qm 1'', JStr ''blue'', JStr ''red'', JInt 3]]\<rparr>"

definition frame_incoming :: dataframe where
  "frame_incoming =
     \<lparr>columns = [''alliance'', ''event_key'', ''bar'', ''winning_alliance'', ''match''],
      data_rows =
        [[JStr ''red'', JStr ''2025aaa'', JInt 7, JStr ''blue'', JStr ''qm 2'']]\<rparr>"

definition match_sf :: "int \<Rightarrow> pydict" where
  "match_sf set_number =
     [(''event_key'', JStr ''2025demo''), (''comp_level'', JStr ''sf''),
      (''set_number'', JInt set_number), (''match_number'', JInt 1),
      (''alliances'', JDict [(''red'', JDict [(''score'', JInt 10)])]),
      (''score_breakdown'', JDict [(''red'', JDict [(''foo'', JInt 3)])])]"

definition two_semifinals :: "string \<Rightarrow> response" where
  "two_semifinals event_key = ok_response [JDict (match_sf 1), JDict (match_sf 2)]"

definition incomplete_only :: "string \<Rightarrow> response" where
  "incomplete_only event_key = ok_response [JDict match_no_breakdown]"

text \<open>
  An example of what pandas may do: integers stored as floats and \<^verbatim>\<open>None\<close> as NaN, as in
  a numeric column with gaps, and a sheet read back with NaN for \<^verbatim>\<open>None\<close> and for the
  empty string and with the text of a list or dict.
\<close>

definition to_float :: "string \<Rightarrow> json \<Rightarrow> json" where
  "to_float c v =
     (case v of JInt n \<Rightarrow> JFloat (str_of_int n @ ''.0'') | JNull \<Rightarrow> nan | _ \<Rightarrow> v)"

definition sheet_cell :: "json \<Rightarrow> json" where
  "sheet_cell v =
     (case v of
        JNull \<Rightarrow> nan
      | JStr s \<Rightarrow> if s = [] then nan else v
      | JList xs \<Rightarrow> JStr (py_str v)
      | JDict d \<Rightarrow> JStr (py_str v)
      | _ \<Rightarrow> v)"

definition pd_demo :: pandas where
  "pd_demo =
     \<lparr>frame_cell = to_float, concat_cell = to_float,
      read_excel = (\<lambda>df. df\<lparr>data_rows := map (map sheet_cell) (data_rows df)\<rparr>)\<rparr>"

definition demo_event :: "string \<Rightarrow> response" where
  "demo_event event_key =
     ok_response [JDict match_qm5, JInt 3, JDict (match_sf 1), JDict match_no_breakdown]"

lemmas example_defs =
  match_qm5_def match_colliding_def match_list_breakdown_def match_top_totalPoints_def
  match_no_breakdown_def

lemmas shape_defs =
  complete_def well_shaped_def colour_ok_def side_breakdown_def dict_get_def breakdown_keys_def

lemmas demo_defs = pd_demo_def to_float_def sheet_cell_def

section \<open>The row flattener: properties\<close>

subsection \<open>Dicts and the loops over them\<close>

lemma keys_Nil [simp]: "keys [] = {}" by (simp add: keys_def)
lemma keys_Cons [simp]: "keys (p # d) = insert (fst p) (keys d)" by (simp add: keys_def)

lemma keys_dict_set [simp]: "keys (dict_set d k v) = insert k (keys d)"
  by (induction d k v rule: dict_set.induct) auto

lemma map_of_dict_set [simp]: "map_of (dict_set d k v) = (map_of d)(k \<mapsto> v)"
  by (induction d k v rule: dict_set.induct) (auto simp: fun_eq_iff)

lemma distinct_dict_set [simp]:
  "distinct (map fst d) \<Longrightarrow> distinct (map fst (dict_set d k v))"
proof (induction d k v rule: dict_set.induct)
  case (2 k' v' d k v)
  then show ?case using keys_dict_set[of d k v] by (auto simp: keys_def simp del: keys_dict_set)
qed simp

lemma keys_dict_update [simp]: "keys (dict_update d other) = keys d \<union> keys other"
  by (induction d other rule: dict_update.induct) auto

lemma distinct_dict_update [simp]:
  "distinct (map fst d) \<Longrightarrow> distinct (map fst (dict_update d other))"
  by (induction d other rule: dict_update.induct) auto

lemma dict_update_other_key:
  "k \<notin> keys other \<Longrightarrow> map_of (dict_update d other) k = map_of d k"
  by (induction d other rule: dict_update.induct) auto

lemma dict_update_overrides:
  "distinct (map fst other) \<Longrightarrow> map_of other k = Some v \<Longrightarrow>
   map_of (dict_update d other) k = Some v"
proof (induction d other rule: dict_update.induct)
  case (2 d k' v' other)
  show ?case
  proof (cases "k' = k")
    case True
    with 2 have "k \<notin> keys other" "v' = v" by (auto simp: keys_def)
    then show ?thesis using True by (simp add: dict_update_other_key)
  next
    case False
    with 2 show ?thesis by simp
  qed
qed simp

lemma keys_reef_loop:
  "keys (reef_loop key items flat) =
   keys flat \<union> (\<lambda>sk. key @ ''_'' @ sk) ` (keys items - IGNORE_REEF_KEYS)"
  by (induction key items flat rule: reef_loop.induct) auto

lemma distinct_reef_loop [simp]:
  "distinct (map fst flat) \<Longrightarrow> distinct (map fst (reef_loop key items flat))"
  by (induction key items flat rule: reef_loop.induct) auto

lemma distinct_sb_loop [simp]:
  "distinct (map fst flat) \<Longrightarrow> distinct (map fst (sb_loop items flat))"
  by (induction items flat rule: sb_loop.induct) auto

lemma reef_name_intro:
  "key = ''autoReef'' \<or> key = ''teleopReef'' \<Longrightarrow> reef_name (key @ ''_'' @ sk)"
  by (auto simp: reef_name_def)

lemma keys_sb_loop_plain:
  "\<not> reef_name k \<Longrightarrow> k \<notin> {''totalPoints'', ''autoReef'', ''teleopReef''} \<Longrightarrow>
   k \<in> keys (sb_loop items flat) \<longleftrightarrow> k \<in> keys flat \<or> k \<in> keys items"
proof (induction items flat rule: sb_loop.induct)
  case (2 key "value" rest flat)
  show ?case
  proof (cases "key = ''totalPoints''")
    case True
    with 2 show ?thesis by simp
  next
    case nt: False
    show ?thesis
    proof (cases "(key = ''autoReef'' \<or> key = ''teleopReef'') \<and> is_dict value")
      case True
      then have "\<And>sk. k \<noteq> key @ ''_'' @ sk" "k \<noteq> key"
        using reef_name_intro "2.prems" by auto
      with 2 nt True show ?thesis
        by (simp add: keys_reef_loop image_iff)
    next
      case False
      with 2 nt show ?thesis by auto
    qed
  qed
qed simp

lemma totalPoints_sb_loop:
  "''totalPoints'' \<in> keys (sb_loop items flat) \<longleftrightarrow> ''totalPoints'' \<in> keys flat"
proof (induction items flat rule: sb_loop.induct)
  case (2 key "value" rest flat)
  then show ?case
    by (auto simp: keys_reef_loop)
qed simp

lemma keys_common_loop:
  "keys (common_loop m cd) =
   keys cd \<union> (keys m - IGNORE_TOP_KEYS - {''alliances'', ''score_breakdown''})"
  by (induction m cd rule: common_loop.induct) auto

lemma distinct_common_loop [simp]:
  "distinct (map fst cd) \<Longrightarrow> distinct (map fst (common_loop m cd))"
  by (induction m cd rule: common_loop.induct) auto

subsection \<open>One alliance row\<close>

lemma process_score_breakdown_Inr_iff:
  "process_score_breakdown sb = Inr flat \<longleftrightarrow> (\<exists>d. sb = JDict d \<and> flat = sb_loop d [])"
  by (cases sb) (auto simp: process_score_breakdown_def ebind_def)

lemma alliance_row_dicts:
  assumes "dict_get a c (JDict []) = JDict ad"
  shows "alliance_row c cd (JDict a) (JDict s) =
         (let sb = dict_get s c (JDict []) in
          if truthy sb
          then (case sb of JDict d \<Rightarrow> Inr (dict_update (base_row c cd ad) (sb_loop d []))
                | _ \<Rightarrow> Inl (AttributeError (type_name sb) ''items''))
          else Inr (base_row c cd ad))"
  using assms
  by (cases "dict_get s c (JDict [])")
     (simp_all add: alliance_row_def base_row_def ebind_def Let_def process_score_breakdown_def)

lemma alliance_row_ok:
  assumes "colour_ok a s c"
  shows "alliance_row c cd a s = Inr (expected_row c cd a s)"
proof -
  from assms obtain am sm where a: "a = JDict am" and s: "s = JDict sm"
    by (cases a; cases s) (auto simp: colour_ok_def)
  from assms a obtain ad where ad: "dict_get am c (JDict []) = JDict ad"
    by (cases "dict_get am c (JDict [])") (auto simp: colour_ok_def)
  from assms s have sb: "is_dict (dict_get sm c (JDict [])) \<or> \<not> truthy (dict_get sm c (JDict []))"
    by (simp add: colour_ok_def side_breakdown_def)
  have "alliance_row c cd (JDict am) (JDict sm) =
        Inr (dict_update (base_row c cd ad) (flat_breakdown (dict_get sm c (JDict []))))"
    using sb by (cases "dict_get sm c (JDict [])")
      (auto simp: alliance_row_dicts[OF ad] flat_breakdown_def Let_def)
  with a s ad show ?thesis
    by (simp add: side_breakdown_def expected_row_def alliance_data_of_def)
qed

lemma alliance_row_not_ok:
  assumes "\<not> colour_ok a s c"
  shows "\<exists>t at. alliance_row c cd a s = Inl (AttributeError t at)"
proof (cases a)
  case (JDict am)
  note a = this
  show ?thesis
  proof (cases "dict_get am c (JDict [])")
    case (JDict ad)
    note ad = this
    show ?thesis
    proof (cases s)
      case (JDict sm)
      with assms a ad have "\<not> is_dict (dict_get sm c (JDict []))" "truthy (dict_get sm c (JDict []))"
        by (auto simp: colour_ok_def side_breakdown_def)
      then show ?thesis using a JDict
        by (cases "dict_get sm c (JDict [])") (auto simp: alliance_row_dicts[OF ad] Let_def)
    qed (simp_all add: a ad alliance_row_def ebind_def Let_def)
  qed (simp_all add: a alliance_row_def ebind_def Let_def)
qed (simp_all add: alliance_row_def ebind_def Let_def)

subsection \<open>The three outcomes of \<^verbatim>\<open>process_match\<close>\<close>

lemma process_match_incomplete:
  "\<not> complete m \<Longrightarrow> process_match (JDict m) = Inr []"
  by (auto simp: complete_def)

lemma process_match_complete:
  "complete m \<Longrightarrow>
   process_match (JDict m) =
     alliance_loop [''red'', ''blue''] (common_fields m) (dict_get m ''alliances'' JNull)
       (dict_get m ''score_breakdown'' JNull) []"
  by (auto simp: complete_def common_fields_def Let_def)

lemma process_match_ok:
  assumes "complete m" "well_shaped m"
  shows "process_match (JDict m) = Inr (expected_rows m)"
  using assms
  by (simp add: process_match_complete well_shaped_def alliance_row_ok ebind_def
      expected_rows_def del: process_match.simps)

lemma process_match_bad:
  assumes "complete m" "\<not> well_shaped m"
  shows "\<exists>t at. process_match (JDict m) = Inl (AttributeError t at)"
proof -
  let ?a = "dict_get m ''alliances'' JNull" and ?s = "dict_get m ''score_breakdown'' JNull"
  show ?thesis
  proof (cases "colour_ok ?a ?s ''red''")
    case True
    with assms(2) have "\<not> colour_ok ?a ?s ''blue''" by (simp add: well_shaped_def)
    from alliance_row_not_ok[OF this, of "common_fields m"] True assms(1) show ?thesis
      by (auto simp: process_match_complete alliance_row_ok ebind_def simp del: process_match.simps)
  next
    case False
    from alliance_row_not_ok[OF this, of "common_fields m"] assms(1) show ?thesis
      by (auto simp: process_match_complete ebind_def simp del: process_match.simps)
  qed
qed

lemma keys_base_row:
  "keys (base_row c cd ad) =
   keys cd \<union> {''alliance'', ''bot1'', ''bot2'', ''bot3'', ''alliance_score''}"
  by (auto simp: base_row_def Let_def)

lemma distinct_flat_breakdown [simp]: "distinct (map fst (flat_breakdown sb))"
  by (cases sb) (simp_all add: flat_breakdown_def)

lemma totalPoints_flat_breakdown [simp]: "''totalPoints'' \<notin> keys (flat_breakdown sb)"
  by (cases sb) (simp_all add: flat_breakdown_def totalPoints_sb_loop)

lemma keys_common_fields:
  "keys (common_fields m) =
   insert ''match'' (keys m - IGNORE_TOP_KEYS - {''alliances'', ''score_breakdown''})"
  by (simp add: common_fields_def keys_common_loop)

lemma keys_expected_row:
  "keys (expected_row c cd a s) =
   keys cd \<union> {''alliance'', ''bot1'', ''bot2'', ''bot3'', ''alliance_score''} \<union>
   keys (flat_breakdown (side_breakdown s c))"
  by (simp add: expected_row_def keys_base_row)

lemma totalPoints_expected_row:
  "''totalPoints'' \<in> keys (expected_row c (common_fields m) a s) \<longleftrightarrow> ''totalPoints'' \<in> keys m"
  by (simp add: keys_expected_row keys_common_fields IGNORE_TOP_KEYS_def)

lemma expected_row_breakdown_wins:
  "map_of (flat_breakdown (side_breakdown s c)) k = Some v \<Longrightarrow>
   map_of (expected_row c cd a s) k = Some v"
  by (simp add: expected_row_def dict_update_overrides)

lemma alliance_key_flat_breakdown:
  "''alliance'' \<in> keys (flat_breakdown sb) \<longleftrightarrow>
   ''alliance'' \<in> keys (case sb of JDict d \<Rightarrow> d | _ \<Rightarrow> [])"
  by (cases sb) (simp_all add: flat_breakdown_def keys_sb_loop_plain reef_name_def)

lemma expected_row_alliance:
  "''alliance'' \<notin> keys (flat_breakdown (side_breakdown s c)) \<Longrightarrow>
   map_of (expected_row c cd a s) ''alliance'' = Some (JStr c)"
  by (simp add: expected_row_def dict_update_other_key base_row_def Let_def)

lemma plain_key_flat_breakdown:
  assumes "\<not> reef_name k" and "k \<notin> {''totalPoints'', ''autoReef'', ''teleopReef''}"
  shows "k \<in> keys (flat_breakdown sb) \<longleftrightarrow> k \<in> keys (case sb of JDict d \<Rightarrow> d | _ \<Rightarrow> [])"
  using assms by (cases sb) (simp_all add: flat_breakdown_def keys_sb_loop_plain)

lemma expected_row_plain_field:
  assumes "k \<notin> breakdown_keys m c" and "\<not> reef_name k"
    and "k \<notin> {''totalPoints'', ''autoReef'', ''teleopReef''}"
  shows "map_of (expected_row c cd a (dict_get m ''score_breakdown'' JNull)) k =
         map_of (base_row c cd (alliance_data_of a c)) k"
proof -
  from assms have "k \<notin> keys (flat_breakdown (side_breakdown (dict_get m ''score_breakdown'' JNull) c))"
    by (simp add: plain_key_flat_breakdown breakdown_keys_def)
  then show ?thesis by (simp add: expected_row_def dict_update_other_key)
qed

text \<open>
  The example match through the flattener: team numbers without the prefix, a non-string
  team key and the missing third team as null, the reef child lifted under its parent's
  name, and neither \<^verbatim>\<open>botRow\<close> nor \<^verbatim>\<open>totalPoints\<close>.
\<close>

lemma process_match_qm5:
  "process_match (JDict match_qm5) =
     Inr [[(''event_key'', JStr ''2025demo''), (''winning_alliance'', JStr ''red''),
           (''match'', JStr ''qm 5''), (''alliance'', JStr ''red''), (''bot1'', JInt 254),
           (''bot2'', JInt 1678), (''bot3'', JInt 118), (''alliance_score'', JInt 120),
           (''autoReef_algae'', JInt 2), (''foo'', JInt 3)],
          [(''event_key'', JStr ''2025demo''), (''winning_alliance'', JStr ''red''),
           (''match'', JStr ''qm 5''), (''alliance'', JStr ''blue''), (''bot1'', JInt 971),
           (''bot2'', JNull), (''bot3'', JNull), (''alliance_score'', JInt 98),
           (''foo'', JInt 1)]]"
  by code_simp

text \<open>
  C1 (amended). For every match mapping that is complete and well shaped,
  \<^verbatim>\<open>process_match\<close> returns exactly two rows, the first built for red and the second for
  blue; the \<^verbatim>\<open>alliance\<close> field of a row is its colour unless that colour's score
  breakdown has itself a key \<^verbatim>\<open>alliance\<close>.
\<close>

theorem process_match_two_rows:
  assumes "complete m" and "well_shaped m"
  shows "\<exists>r b. process_match (JDict m) = Inr [r, b] \<and>
           (''alliance'' \<notin> breakdown_keys m ''red'' \<longrightarrow>
              map_of r ''alliance'' = Some (JStr ''red'')) \<and>
           (''alliance'' \<notin> breakdown_keys m ''blue'' \<longrightarrow>
              map_of b ''alliance'' = Some (JStr ''blue''))"
proof -
  let ?a = "dict_get m ''alliances'' JNull" and ?s = "dict_get m ''score_breakdown'' JNull"
  let ?r = "expected_row ''red'' (common_fields m) ?a ?s"
  let ?b = "expected_row ''blue'' (common_fields m) ?a ?s"
  have rows: "process_match (JDict m) = Inr [?r, ?b]"
    using process_match_ok[OF assms] by (simp add: expected_rows_def)
  have red: "''alliance'' \<notin> breakdown_keys m ''red'' \<Longrightarrow>
             map_of ?r ''alliance'' = Some (JStr ''red'')"
    by (rule expected_row_alliance) (simp add: alliance_key_flat_breakdown breakdown_keys_def)
  have blue: "''alliance'' \<notin> breakdown_keys m ''blue'' \<Longrightarrow>
              map_of ?b ''alliance'' = Some (JStr ''blue'')"
    by (rule expected_row_alliance) (simp add: alliance_key_flat_breakdown breakdown_keys_def)
  from rows red blue show ?thesis by blast
qed

theorem process_match_two_rows_witness:
  "complete match_qm5 \<and> well_shaped match_qm5 \<and>
   ''alliance'' \<notin> breakdown_keys match_qm5 ''red'' \<and>
   ''alliance'' \<notin> breakdown_keys match_qm5 ''blue'' \<and>
   (\<exists>r b. process_match (JDict match_qm5) = Inr [r, b] \<and>
          map_of r ''alliance'' = Some (JStr ''red'') \<and>
          map_of b ''alliance'' = Some (JStr ''blue''))"
proof -
  have c: "complete match_qm5" by (simp add: match_qm5_def shape_defs)
  have w: "well_shaped match_qm5" by (simp add: match_qm5_def shape_defs)
  have r: "''alliance'' \<notin> breakdown_keys match_qm5 ''red''"
    by (simp add: match_qm5_def shape_defs)
  have b: "''alliance'' \<notin> breakdown_keys match_qm5 ''blue''"
    by (simp add: match_qm5_def shape_defs)
  from process_match_two_rows[OF c w] c w r b show ?thesis by blast
qed

text \<open>
  As stated for every complete match, C1 fails: when both breakdowns carry a key
  \<^verbatim>\<open>alliance\<close>, two rows come back and neither has \<^verbatim>\<open>alliance\<close> equal to red.
\<close>

theorem process_match_alliance_overwritten:
  "complete match_colliding \<and>
   (case process_match (JDict match_colliding) of
      Inl e \<Rightarrow> False
    | Inr rows \<Rightarrow> length rows = 2 \<and>
        \<not> (\<exists>r \<in> set rows. map_of r ''alliance'' = Some (JStr ''red'')))"
  by (simp add: match_colliding_def shape_defs alliance_row_def ebind_def Let_def
      process_score_breakdown_def common_fields_def)

text \<open>
  C2. For every match mapping in which \<^verbatim>\<open>alliances\<close> or \<^verbatim>\<open>score_breakdown\<close> is absent
  or null, \<^verbatim>\<open>process_match\<close> returns the empty list, without an exception; the loop of
  \<^verbatim>\<open>fetch_event_matches\<close> then adds no row and records no error for it.
\<close>

theorem process_match_drops_incomplete:
  assumes "map_of m ''alliances'' = None \<or> map_of m ''alliances'' = Some JNull \<or>
           map_of m ''score_breakdown'' = None \<or> map_of m ''score_breakdown'' = Some JNull"
  shows "process_match (JDict m) = Inr [] \<and>
         match_loop i [JDict m] event_key acc error_list = (acc, error_list)"
proof -
  from assms have "\<not> complete m"
    by (auto simp: complete_def dict_get_def)
  then have "process_match (JDict m) = Inr []"
    by (rule process_match_incomplete)
  then show ?thesis by (simp del: process_match.simps)
qed

theorem process_match_drops_incomplete_witness:
  "map_of match_no_breakdown ''score_breakdown'' = Some JNull \<and>
   process_match (JDict match_no_breakdown) = Inr [] \<and>
   match_loop 0 [JDict match_no_breakdown] ''2025demo'' [] [] = ([], [])"
proof -
  have h: "map_of match_no_breakdown ''score_breakdown'' = Some JNull"
    by (simp add: match_no_breakdown_def)
  from process_match_drops_incomplete[of match_no_breakdown 0 "''2025demo''" "[]" "[]"] h
  show ?thesis by blast
qed

text \<open>
  C4 (amended). For every input mapping \<^verbatim>\<open>process_match\<close> either returns rows or raises
  AttributeError, and it raises exactly when the match is complete and not well shaped.
  Extracting a team number never raises, and every failure gives null: an expression that
  raises, a missing slot, a team key that is not a string, a string that \<^verbatim>\<open>int\<close>
  rejects. A string that \<^verbatim>\<open>int\<close> accepts gives its number. The bot field of a row holds
  the extracted value, unless the breakdown names that field.
\<close>

theorem process_match_raises_iff:
  "(complete m \<and> \<not> well_shaped m \<longrightarrow>
      (\<exists>t a. process_match (JDict m) = Inl (AttributeError t a))) \<and>
   (\<not> (complete m \<and> \<not> well_shaped m) \<longrightarrow>
      (\<exists>rs. process_match (JDict m) = Inr rs)) \<and>
   (\<forall>e. bot_expr team_keys i = Inl e \<longrightarrow> extract_bot team_keys i = JNull) \<and>
   (length xs \<le> i \<longrightarrow> extract_bot (JList xs) i = JNull) \<and>
   (i < length xs \<and> \<not> is_str (xs ! i) \<longrightarrow> extract_bot (JList xs) i = JNull) \<and>
   (i < length xs \<and> xs ! i = JStr s \<longrightarrow>
      extract_bot (JList xs) i =
        (case py_int (remove_frc s) of Inl e \<Rightarrow> JNull | Inr num \<Rightarrow> JInt num)) \<and>
   (complete m \<and> well_shaped m \<and> (c, j) \<in> {(''red'', 0), (''blue'', 1)} \<and>
    (k, i) \<in> {(''bot1'', 0), (''bot2'', 1), (''bot3'', 2)} \<and> k \<notin> breakdown_keys m c \<longrightarrow>
      (\<exists>rs. process_match (JDict m) = Inr rs \<and> length rs = 2 \<and>
            map_of (rs ! j) k = Some (extract_bot (team_keys_of m c) i)))"
proof (intro conjI impI allI)
  assume "complete m \<and> \<not> well_shaped m"
  then show "\<exists>t a. process_match (JDict m) = Inl (AttributeError t a)"
    using process_match_bad by blast
next
  assume h: "\<not> (complete m \<and> \<not> well_shaped m)"
  show "\<exists>rs. process_match (JDict m) = Inr rs"
  proof (cases "complete m")
    case True
    with h have "well_shaped m" by simp
    with True show ?thesis using process_match_ok by blast
  next
    case False
    then show ?thesis using process_match_incomplete by blast
  qed
next
  fix e assume "bot_expr team_keys i = Inl e"
  then show "extract_bot team_keys i = JNull" by (simp add: extract_bot_def)
next
  assume "length xs \<le> i"
  then show "extract_bot (JList xs) i = JNull"
    by (simp add: extract_bot_def bot_expr_def ebind_def)
next
  assume "i < length xs \<and> \<not> is_str (xs ! i)"
  then show "extract_bot (JList xs) i = JNull"
    by (cases "xs ! i") (simp_all add: extract_bot_def bot_expr_def ebind_def)
next
  assume "i < length xs \<and> xs ! i = JStr s"
  then show "extract_bot (JList xs) i =
        (case py_int (remove_frc s) of Inl e \<Rightarrow> JNull | Inr num \<Rightarrow> JInt num)"
    by (simp add: extract_bot_def bot_expr_def ebind_def split: sum.splits)
next
  assume h: "complete m \<and> well_shaped m \<and> (c, j) \<in> {(''red'', 0), (''blue'', 1)} \<and>
    (k, i) \<in> {(''bot1'', 0), (''bot2'', 1), (''bot3'', 2)} \<and> k \<notin> breakdown_keys m c"
  let ?a = "dict_get m ''alliances'' JNull"
  let ?row = "expected_row c (common_fields m) ?a (dict_get m ''score_breakdown'' JNull)"
  from h have rs: "process_match (JDict m) = Inr (expected_rows m)"
    using process_match_ok[of m] by blast
  from h have row: "expected_rows m ! j = ?row"
    by (auto simp: expected_rows_def)
  from h have plain: "\<not> reef_name k" "k \<notin> {''totalPoints'', ''autoReef'', ''teleopReef''}"
    by (auto simp: reef_name_def)
  from h have "map_of ?row k = map_of (base_row c (common_fields m) (alliance_data_of ?a c)) k"
    by (intro expected_row_plain_field plain) simp
  also from h have "\<dots> = Some (extract_bot (team_keys_of m c) i)"
    by (auto simp: base_row_def Let_def team_keys_of_def)
  finally have "map_of (expected_rows m ! j) k = Some (extract_bot (team_keys_of m c) i)"
    by (simp only: row)
  with rs show "\<exists>rs. process_match (JDict m) = Inr rs \<and> length rs = 2 \<and>
            map_of (rs ! j) k = Some (extract_bot (team_keys_of m c) i)"
    by (simp add: expected_rows_def del: process_match.simps)
qed

theorem process_match_raises_iff_witness:
  "complete match_qm5 \<and> well_shaped match_qm5 \<and>
   ''bot2'' \<notin> breakdown_keys match_qm5 ''blue'' \<and>
   team_keys_of match_qm5 ''blue'' = JList [JStr ''frc971'', JInt 3] \<and>
   bot_expr (JInt 7) 0 = Inl (TypeError ''int'' ''len'') \<and>
   extract_bot (JInt 7) 0 = JNull \<and>
   extract_bot (JList [JStr ''frc971'', JInt 3]) 2 = JNull \<and>
   extract_bot (JList [JStr ''frc971'', JInt 3]) 1 = JNull \<and>
   extract_bot (JList [JStr ''frc97x'']) 0 = JNull \<and>
   extract_bot (JList [JStr ''frc971'', JInt 3]) 0 = JInt 971 \<and>
   (\<exists>rs. process_match (JDict match_qm5) = Inr rs \<and> length rs = 2 \<and>
         map_of (rs ! 1) ''bot2'' = Some JNull)"
proof -
  have c: "complete match_qm5" by (simp add: match_qm5_def shape_defs)
  have w: "well_shaped match_qm5" by (simp add: match_qm5_def shape_defs)
  have k: "''bot2'' \<notin> breakdown_keys match_qm5 ''blue''"
    by (simp add: match_qm5_def shape_defs)
  have t: "team_keys_of match_qm5 ''blue'' = JList [JStr ''frc971'', JInt 3]"
    by (simp add: team_keys_of_def alliance_data_of_def match_qm5_def dict_get_def)
  have f: "bot_expr (JInt 7) 0 = Inl (TypeError ''int'' ''len'')"
    by (simp add: bot_expr_def ebind_def)
  have p1: "py_int (remove_frc ''frc97x'') = Inl (ValueError ''97x'')" by code_simp
  have p2: "py_int (remove_frc ''frc971'') = Inr 971" by code_simp
  note T = process_match_raises_iff[of match_qm5]
  from T[of "JInt 7" 0 "[]" "[]" "''red''" 0 "''bot1''"] f
  have b0: "extract_bot (JInt 7) 0 = JNull" by blast
  from T[of "JInt 7" 2 "[JStr ''frc971'', JInt 3]" "[]" "''red''" 0 "''bot1''"]
  have b1: "extract_bot (JList [JStr ''frc971'', JInt 3]) 2 = JNull" by simp
  from T[of "JInt 7" 1 "[JStr ''frc971'', JInt 3]" "[]" "''blue''" 1 "''bot2''"]
  have b2: "extract_bot (JList [JStr ''frc971'', JInt 3]) 1 = JNull" by simp
  from T[of "JInt 7" 1 "[JStr ''frc971'', JInt 3]" "[]" "''blue''" 1 "''bot2''"] c w k
  have "\<exists>rs. process_match (JDict match_qm5) = Inr rs \<and> length rs = 2 \<and>
         map_of (rs ! 1) ''bot2'' = Some (extract_bot (team_keys_of match_qm5 ''blue'') 1)"
    by blast
  then have r: "\<exists>rs. process_match (JDict match_qm5) = Inr rs \<and> length rs = 2 \<and>
         map_of (rs ! 1) ''bot2'' = Some JNull"
    by (simp only: t b2)
  from T[of "JInt 7" 0 "[JStr ''frc97x'']" "''frc97x''" "''red''" 0 "''bot1''"] p1
  have b3: "extract_bot (JList [JStr ''frc97x'']) 0 = JNull" by simp
  from T[of "JInt 7" 0 "[JStr ''frc971'', JInt 3]" "''frc971''" "''red''" 0 "''bot1''"] p2
  have b4: "extract_bot (JList [JStr ''frc971'', JInt 3]) 0 = JInt 971" by simp
  from c w k t f b0 b1 b2 b3 b4 r show ?thesis by (intro conjI)
qed

text \<open>
  As stated, C4 fails: a breakdown entry that is a non-empty list makes
  \<^verbatim>\<open>process_match\<close> raise.
\<close>

theorem process_match_raises_on_list_breakdown:
  "process_match (JDict match_list_breakdown) = Inl (AttributeError ''list'' ''items'')"
  by (simp add: match_list_breakdown_def dict_get_def alliance_row_def ebind_def Let_def
      process_score_breakdown_def)

text \<open>
  C5 (amended). \<^verbatim>\<open>process_score_breakdown\<close> never yields a key \<^verbatim>\<open>totalPoints\<close>, and a
  row returned by \<^verbatim>\<open>process_match\<close> has a \<^verbatim>\<open>totalPoints\<close> column exactly when the match
  mapping has a top-level key of that name.
\<close>

theorem totalPoints_only_from_top_level:
  "(process_score_breakdown sb = Inr flat \<longrightarrow> ''totalPoints'' \<notin> keys flat) \<and>
   (process_match (JDict m) = Inr rs \<and> r \<in> set rs \<longrightarrow>
      (''totalPoints'' \<in> keys r \<longleftrightarrow> ''totalPoints'' \<in> keys m))"
proof (intro conjI impI)
  assume "process_score_breakdown sb = Inr flat"
  then show "''totalPoints'' \<notin> keys flat"
    by (auto simp: process_score_breakdown_Inr_iff totalPoints_sb_loop)
next
  assume h: "process_match (JDict m) = Inr rs \<and> r \<in> set rs"
  show "''totalPoints'' \<in> keys r \<longleftrightarrow> ''totalPoints'' \<in> keys m"
  proof (cases "complete m")
    case True
    with h have "well_shaped m" using process_match_bad[of m] by auto
    with True h have "r \<in> set (expected_rows m)" using process_match_ok[of m] by simp
    then show ?thesis
      by (auto simp: expected_rows_def totalPoints_expected_row)
  next
    case False
    with h show ?thesis using process_match_incomplete[of m] by simp
  qed
qed

theorem totalPoints_only_from_top_level_witness:
  "process_score_breakdown (JDict [(''totalPoints'', JInt 120), (''foo'', JInt 3)])
     = Inr [(''foo'', JInt 3)] \<and>
   ''totalPoints'' \<notin> keys [(''foo'', JInt 3)] \<and>
   process_match (JDict match_qm5) = Inr (expected_rows match_qm5) \<and>
   expected_rows match_qm5 ! 0 \<in> set (expected_rows match_qm5) \<and>
   ''totalPoints'' \<notin> keys (expected_rows match_qm5 ! 0)"
proof -
  have f: "process_score_breakdown (JDict [(''totalPoints'', JInt 120), (''foo'', JInt 3)])
             = Inr [(''foo'', JInt 3)]"
    by (simp add: process_score_breakdown_def ebind_def)
  have c: "complete match_qm5" by (simp add: match_qm5_def shape_defs)
  have w: "well_shaped match_qm5" by (simp add: match_qm5_def shape_defs)
  have p: "process_match (JDict match_qm5) = Inr (expected_rows match_qm5)"
    using process_match_ok[OF c w] .
  have i: "expected_rows match_qm5 ! 0 \<in> set (expected_rows match_qm5)"
    by (simp add: expected_rows_def)
  have k: "''totalPoints'' \<notin> keys match_qm5" by (simp add: match_qm5_def)
  from totalPoints_only_from_top_level[of
      "JDict [(''totalPoints'', JInt 120), (''foo'', JInt 3)]" "[(''foo'', JInt 3)]"
      match_qm5 "expected_rows match_qm5" "expected_rows match_qm5 ! 0"] f p i k
  show ?thesis by blast
qed

text \<open>
  As stated, C5 fails: a top-level key \<^verbatim>\<open>totalPoints\<close> is copied into both rows.
\<close>

theorem totalPoints_copied_from_top_level:
  "complete match_top_totalPoints \<and>
   (case process_match (JDict match_top_totalPoints) of
      Inl e \<Rightarrow> False
    | Inr rs \<Rightarrow> length rs = 2 \<and> map_of (rs ! 0) ''totalPoints'' = Some (JInt 5) \<and>
        map_of (rs ! 1) ''totalPoints'' = Some (JInt 5))"
  by (simp add: match_top_totalPoints_def shape_defs alliance_row_def ebind_def Let_def
      IGNORE_TOP_KEYS_def)

text \<open>
  C10. For every complete match on which \<^verbatim>\<open>process_match\<close> returns, the flattened score
  breakdown of a colour is merged last into that colour's row: every key it holds has, in
  the row, the value the breakdown gives it, whatever field was set under that name before.
\<close>

theorem breakdown_merged_last:
  assumes "complete m" and "process_match (JDict m) = Inr rs"
    and "(i, c) = (0, ''red'') \<or> (i, c) = (1, ''blue'')"
    and "process_score_breakdown (side_breakdown (dict_get m ''score_breakdown'' JNull) c)
           = Inr flat"
    and "map_of flat k = Some v"
  shows "i < length rs \<and> map_of (rs ! i) k = Some v"
proof -
  from assms(1,2) have w: "well_shaped m" using process_match_bad[of m] by auto
  from process_match_ok[OF assms(1) w] assms(2) have rs: "rs = expected_rows m" by simp
  from assms(4) have "flat = flat_breakdown (side_breakdown (dict_get m ''score_breakdown'' JNull) c)"
    by (auto simp: process_score_breakdown_Inr_iff flat_breakdown_def)
  with assms(5) have "map_of (expected_row c (common_fields m) (dict_get m ''alliances'' JNull)
       (dict_get m ''score_breakdown'' JNull)) k = Some v"
    by (simp add: expected_row_breakdown_wins)
  with assms(3) rs show ?thesis by (auto simp: expected_rows_def)
qed

theorem breakdown_merged_last_witness:
  "complete match_colliding \<and>
   process_match (JDict match_colliding) = Inr (expected_rows match_colliding) \<and>
   process_score_breakdown
     (side_breakdown (dict_get match_colliding ''score_breakdown'' JNull) ''red'')
     = Inr [(''alliance'', JStr ''blue''), (''match'', JStr ''final'')] \<and>
   map_of (expected_rows match_colliding ! 0) ''alliance'' = Some (JStr ''blue'') \<and>
   map_of (expected_rows match_colliding ! 0) ''match'' = Some (JStr ''final'')"
proof -
  have c: "complete match_colliding" by (simp add: match_colliding_def shape_defs)
  have w: "well_shaped match_colliding" by (simp add: match_colliding_def shape_defs)
  have p: "process_match (JDict match_colliding) = Inr (expected_rows match_colliding)"
    using process_match_ok[OF c w] .
  have f: "process_score_breakdown
     (side_breakdown (dict_get match_colliding ''score_breakdown'' JNull) ''red'')
     = Inr [(''alliance'', JStr ''blue''), (''match'', JStr ''final'')]"
    by (simp add: match_colliding_def shape_defs process_score_breakdown_def ebind_def)
  have a: "map_of [(''alliance'', JStr ''blue''), (''match'', JStr ''final'')] ''alliance''
             = Some (JStr ''blue'')" by simp
  have b: "map_of [(''alliance'', JStr ''blue''), (''match'', JStr ''final'')] ''match''
             = Some (JStr ''final'')" by simp
  from breakdown_merged_last[OF c p _ f a, of 0] breakdown_merged_last[OF c p _ f b, of 0] c p f
  show ?thesis by simp
qed

section \<open>The event fetch adapter: properties\<close>

lemma match_loop_eq:
  "match_loop i ms ek acc errs = (acc @ concat (map rows_of ms), errs @ errors_from i ek ms)"
  by (induction ms arbitrary: i acc errs)
     (auto simp: rows_of_def split: sum.splits simp del: process_match.simps)

lemma errors_from_append:
  "errors_from i ek (xs @ ys) = errors_from i ek xs @ errors_from (i + length xs) ek ys"
  by (induction xs arbitrary: i) (auto simp del: process_match.simps)

lemma errors_from_all_ok:
  "\<forall>m \<in> set ms. \<exists>rs. process_match m = Inr rs \<Longrightarrow> errors_from i ek ms = []"
  by (induction ms arbitrary: i) (auto simp del: process_match.simps)

lemma fetch_event_matches_list:
  "status_code resp = 200 \<Longrightarrow> json_body resp = Some (JList ms) \<Longrightarrow>
   fetch_event_matches ek errs resp =
     Inr (concat (map rows_of ms), errs @ errors_from 0 ek ms)"
  by (simp add: fetch_event_matches_def ebind_def match_loop_eq)

text \<open>
  C6. When the response is a list of matches and \<^verbatim>\<open>process_match\<close> raises on exactly one
  of them, at index \<open>i\<close>, \<^verbatim>\<open>fetch_event_matches\<close> returns the rows of all the other
  matches, in order, and appends exactly one error, which carries the index \<open>i\<close>; the rows
  are those it returns for the list without that match.
\<close>

theorem one_bad_match_is_isolated:
  assumes "status_code resp = 200" and "json_body resp = Some (JList matches)"
    and "i < length matches" and "process_match (matches ! i) = Inl e"
    and "\<forall>j < length matches. j \<noteq> i \<longrightarrow> (\<exists>rs. process_match (matches ! j) = Inr rs)"
  shows "fetch_event_matches ek errs resp =
           Inr (concat (map rows_of (take i matches @ drop (Suc i) matches)),
                errs @ [MatchError i ek (matches ! i) e]) \<and>
         fetch_event_matches ek errs
             (resp\<lparr>json_body := Some (JList (take i matches @ drop (Suc i) matches))\<rparr>) =
           Inr (concat (map rows_of (take i matches @ drop (Suc i) matches)), errs)"
proof -
  let ?pre = "take i matches" and ?post = "drop (Suc i) matches"
  have split: "matches = ?pre @ (matches ! i) # ?post"
    using assms(3) by (rule id_take_nth_drop)
  have len: "length ?pre = i" using assms(3) by simp
  have pre_ok: "\<forall>m \<in> set ?pre. \<exists>rs. process_match m = Inr rs"
  proof
    fix m assume "m \<in> set ?pre"
    then obtain j where "j < length ?pre" "m = ?pre ! j" by (auto simp: in_set_conv_nth)
    with assms(3,5) show "\<exists>rs. process_match m = Inr rs" by auto
  qed
  have post_ok: "\<forall>m \<in> set ?post. \<exists>rs. process_match m = Inr rs"
  proof
    fix m assume "m \<in> set ?post"
    then obtain j where j: "j < length ?post" "m = ?post ! j" by (auto simp: in_set_conv_nth)
    then have "m = matches ! (Suc i + j)" "Suc i + j < length matches" by auto
    with assms(5) show "\<exists>rs. process_match m = Inr rs" by auto
  qed
  have bad_rows: "rows_of (matches ! i) = []"
    using assms(4) by (simp add: rows_of_def)
  have "errors_from 0 ek (?pre @ (matches ! i) # ?post) =
        errors_from 0 ek ?pre @ errors_from (0 + length ?pre) ek ((matches ! i) # ?post)"
    by (rule errors_from_append)
  also have "0 + length ?pre = i" using len by simp
  also have "errors_from 0 ek ?pre = []" by (rule errors_from_all_ok[OF pre_ok])
  also have "errors_from i ek ((matches ! i) # ?post) = [MatchError i ek (matches ! i) e]"
    using assms(4) errors_from_all_ok[OF post_ok] by (simp del: process_match.simps)
  also have "?pre @ (matches ! i) # ?post = matches" using split by simp
  finally have errs: "errors_from 0 ek matches = [MatchError i ek (matches ! i) e]" by simp
  have "concat (map rows_of matches) =
        concat (map rows_of (?pre @ (matches ! i) # ?post))"
    using split by simp
  also have "\<dots> = concat (map rows_of (?pre @ ?post))"
    using bad_rows by simp
  finally have rows: "concat (map rows_of matches) = concat (map rows_of (?pre @ ?post))" .
  have others: "errors_from 0 ek (?pre @ ?post) = []"
    using pre_ok post_ok by (intro errors_from_all_ok) auto
  have first: "fetch_event_matches ek errs resp =
      Inr (concat (map rows_of (?pre @ ?post)), errs @ [MatchError i ek (matches ! i) e])"
    using fetch_event_matches_list[OF assms(1,2), of ek errs] errs rows by simp
  have second: "fetch_event_matches ek errs (resp\<lparr>json_body := Some (JList (?pre @ ?post))\<rparr>) =
      Inr (concat (map rows_of (?pre @ ?post)), errs)"
    using fetch_event_matches_list[of "resp\<lparr>json_body := Some (JList (?pre @ ?post))\<rparr>"
        "?pre @ ?post" ek errs] assms(1) others by simp
  from first second show ?thesis by simp
qed

theorem one_bad_match_is_isolated_witness:
  "process_match ([JDict match_qm5, JInt 3, JDict match_colliding] ! 1) =
     Inl (AttributeError ''int'' ''get'') \<and>
   fetch_event_matches ''2025demo'' []
       (ok_response [JDict match_qm5, JInt 3, JDict match_colliding]) =
     Inr (expected_rows match_qm5 @ expected_rows match_colliding,
          [MatchError 1 ''2025demo'' (JInt 3) (AttributeError ''int'' ''get'')])"
proof -
  let ?ms = "[JDict match_qm5, JInt 3, JDict match_colliding]"
  have q: "process_match (JDict match_qm5) = Inr (expected_rows match_qm5)"
    by (rule process_match_ok) (simp_all add: match_qm5_def shape_defs)
  have c: "process_match (JDict match_colliding) = Inr (expected_rows match_colliding)"
    by (rule process_match_ok) (simp_all add: match_colliding_def shape_defs)
  have bad: "process_match (?ms ! 1) = Inl (AttributeError ''int'' ''get'')" by simp
  have others: "\<forall>j < length ?ms. j \<noteq> 1 \<longrightarrow> (\<exists>rs. process_match (?ms ! j) = Inr rs)"
    using q c by (auto simp: less_Suc_eq nth_Cons' simp del: process_match.simps)
  have s: "status_code (ok_response ?ms) = 200" "json_body (ok_response ?ms) = Some (JList ?ms)"
    by (simp_all add: ok_response_def)
  have l: "1 < length ?ms" by simp
  from one_bad_match_is_isolated[OF s l bad others, of "''2025demo''" "[]"] q c bad
  show ?thesis by (simp add: rows_of_def del: process_match.simps)
qed

section \<open>The dataset: properties\<close>

subsection \<open>Selecting and reordering columns\<close>

lemma filter_eq_index: "i < n \<Longrightarrow> filter (\<lambda>j. j = i) [0..<n] = [i]"
  by (induction n) (auto simp: less_Suc_eq)

lemma positions_nth:
  assumes "distinct cols" and "i < length cols"
  shows "positions cols (cols ! i) = [i]"
proof -
  have "filter (\<lambda>j. cols ! j = cols ! i) [0..<length cols] =
        filter (\<lambda>j. j = i) [0..<length cols]"
    using assms by (intro filter_cong) (auto simp: nth_eq_iff_index_eq)
  then show ?thesis using assms(2) by (simp add: positions_def filter_eq_index)
qed

lemma cell_nth:
  "distinct cols \<Longrightarrow> length r = length cols \<Longrightarrow> i < length cols \<Longrightarrow>
   cell cols r (cols ! i) = r ! i"
  by (simp add: cell_def map_of_zip_nth)

lemma select_labels:
  assumes "distinct cols" and "set labels \<subseteq> set cols"
  shows "map (\<lambda>i. cols ! i) (concat (map (positions cols) labels)) = labels"
  using assms(2)
proof (induction labels)
  case (Cons l labels)
  then obtain i where "i < length cols" "l = cols ! i" by (auto simp: in_set_conv_nth)
  with Cons assms(1) show ?case by (simp add: positions_nth)
qed simp

lemma select_cells:
  assumes "distinct cols" and "set labels \<subseteq> set cols" and "length r = length cols"
  shows "map (\<lambda>i. r ! i) (concat (map (positions cols) labels)) = map (cell cols r) labels"
  using assms(2)
proof (induction labels)
  case (Cons l labels)
  then obtain i where "i < length cols" "l = cols ! i" by (auto simp: in_set_conv_nth)
  with Cons assms(1,3) show ?case by (simp add: positions_nth cell_nth)
qed simp

lemma cell_outside: "c \<notin> set cols \<Longrightarrow> cell cols r c = nan"
proof -
  assume "c \<notin> set cols"
  then have "c \<notin> fst ` set (zip cols r)" by (auto dest: set_zip_leftD)
  then have "map_of (zip cols r) c = None" by (simp add: map_of_eq_None_iff)
  then show ?thesis by (simp add: cell_def)
qed

lemma cell_realigned:
  assumes "set old \<subseteq> set new"
  shows "cell new (map (cell old r) new) = cell old r"
proof
  fix c
  show "cell new (map (cell old r) new) c = cell old r c"
  proof (cases "c \<in> set new")
    case True
    then show ?thesis by (simp add: cell_def map_of_zip_map)
  next
    case False
    with assms have "c \<notin> set old" by auto
    with False show ?thesis by (simp add: cell_outside)
  qed
qed

lemma select_columns_wf:
  assumes "wf_frame df" and "set labels \<subseteq> set (columns df)"
  shows "select_columns df labels =
         Inr \<lparr>columns = labels,
              data_rows = map (\<lambda>r. map (cell (columns df) r) labels) (data_rows df)\<rparr>"
proof -
  from assms(2) have none: "filter (\<lambda>l. l \<notin> set (columns df)) labels = []"
    by (auto simp: filter_empty_conv)
  have cols: "map (\<lambda>i. columns df ! i) (concat (map (positions (columns df)) labels)) = labels"
    using assms by (intro select_labels) (auto simp: wf_frame_def)
  have rows: "map (\<lambda>r. map (\<lambda>i. r ! i) (concat (map (positions (columns df)) labels)))
                (data_rows df) =
              map (\<lambda>r. map (cell (columns df) r) labels) (data_rows df)"
    using assms by (intro map_cong refl select_cells) (auto simp: wf_frame_def)
  show ?thesis by (simp add: select_columns_def none Let_def cols rows)
qed

lemma pin_loop_set:
  "pin_loop ps cols acc = (d, cs) \<Longrightarrow> set d \<union> set cs = set acc \<union> set cols"
proof (induction ps cols acc arbitrary: d cs rule: pin_loop.induct)
  case (2 col rest cols desired_order)
  show ?case
  proof (cases "col \<in> set cols")
    case True
    with 2 have "set d \<union> set cs = set (desired_order @ [col]) \<union> set (remove1 col cols)"
      by simp
    moreover have "insert col (set (remove1 col cols)) = set cols"
      using True by (induction cols) auto
    ultimately show ?thesis by auto
  next
    case False
    with 2 show ?thesis by simp
  qed
qed simp

lemma set_new_order: "set (new_order cols) = set cols"
proof -
  obtain d cs where p: "pin_loop [''event_key'', ''match'', ''winning_alliance''] cols [] = (d, cs)"
    by (cases "pin_loop [''event_key'', ''match'', ''winning_alliance''] cols []")
  from pin_loop_set[OF p] show ?thesis
    unfolding new_order_def p by simp
qed

lemma reorder_columns_wf:
  assumes "wf_frame df"
  shows "reorder_columns df =
         Inr \<lparr>columns = new_order (columns df),
              data_rows = map (\<lambda>r. map (cell (columns df) r) (new_order (columns df)))
                            (data_rows df)\<rparr>"
  unfolding reorder_columns_def
  by (rule select_columns_wf[OF assms]) (simp add: set_new_order)

lemma row_views_reordered:
  "row_views \<lparr>columns = new_order cols,
              data_rows = map (\<lambda>r. map (cell cols r) (new_order cols)) rs\<rparr> =
   map (cell cols) rs"
  by (simp add: row_views_def cell_realigned set_new_order)

lemma remove1_filter_distinct:
  "distinct xs \<Longrightarrow> remove1 x xs = filter (\<lambda>c. x \<noteq> c) xs"
  by (simp add: distinct_remove1_removeAll removeAll_filter_not_eq)

lemma new_order_all_present:
  assumes "distinct cols" and "set pinned \<subseteq> set cols"
  shows "new_order cols = pinned @ filter (\<lambda>c. c \<notin> set pinned) cols"
proof -
  have m: "''match'' \<in> set (remove1 ''event_key'' cols)"
    using assms(2) by (simp add: pinned_def)
  have w: "''winning_alliance'' \<in> set (remove1 ''match'' (remove1 ''event_key'' cols))"
    using assms(2) by (simp add: pinned_def)
  have e: "''event_key'' \<in> set cols" using assms(2) by (simp add: pinned_def)
  have "remove1 ''winning_alliance'' (remove1 ''match'' (remove1 ''event_key'' cols)) =
        filter (\<lambda>c. ''winning_alliance'' \<noteq> c)
          (filter (\<lambda>c. ''match'' \<noteq> c) (filter (\<lambda>c. ''event_key'' \<noteq> c) cols))"
    using assms(1) by (simp add: remove1_filter_distinct)
  also have "\<dots> = filter (\<lambda>c. c \<notin> set pinned) cols"
    by (auto simp: pinned_def intro: filter_cong)
  finally show ?thesis using e m w by (simp add: new_order_def pinned_def)
qed

subsection \<open>Concatenation, filtering, \<^verbatim>\<open>update_file\<close>\<close>

lemma set_first_seen [simp]: "set (first_seen xs) = set xs"
  by (induction xs rule: first_seen.induct) auto

lemma unique_hashable:
  "\<forall>x \<in> set xs. hashable x \<Longrightarrow> unique xs = Inr (first_seen xs)"
  by (simp add: unique_def filter_empty_conv)

lemma map_of_convert_row:
  "map_of (zip cols (convert_row f cols r)) c = map_option (f c) (map_of (zip cols r) c)"
  unfolding convert_row_def
proof (induction cols arbitrary: r)
  case (Cons a cols)
  then show ?case by (cases r) auto
qed simp

lemma cell_convert_row:
  assumes "length r = length cols"
  shows "cell cols (convert_row f cols r) = converted f cols (cell cols r)"
proof
  fix c
  show "cell cols (convert_row f cols r) c = converted f cols (cell cols r) c"
  proof (cases "map_of (zip cols r) c")
    case None
    with assms have "c \<notin> set cols" by (simp add: map_of_zip_is_None)
    with None show ?thesis by (simp add: cell_def map_of_convert_row converted_def)
  next
    case (Some v)
    with assms have "c \<in> set cols" by (metis map_of_zip_is_None option.distinct(1))
    with Some show ?thesis by (simp add: cell_def map_of_convert_row converted_def)
  qed
qed

lemma columns_concat_frames:
  "set (columns (concat_frames pd a b)) = set (columns a) \<union> set (columns b)"
  by (auto simp: concat_frames_def Let_def)

lemma wf_concat_frames:
  "wf_frame a \<Longrightarrow> wf_frame b \<Longrightarrow> wf_frame (concat_frames pd a b)"
  by (auto simp: wf_frame_def concat_frames_def Let_def realign_def convert_row_def)

lemma row_views_concat_frames:
  "row_views (concat_frames pd a b) =
   map (converted (concat_cell pd) (columns (concat_frames pd a b)))
     (row_views a @ row_views b)"
proof -
  let ?cols = "columns a @ filter (\<lambda>c. c \<notin> set (columns a)) (columns b)"
  have a: "cell ?cols (convert_row f ?cols (realign (columns a) ?cols r)) =
           converted f ?cols (cell (columns a) r)" for r f
  proof -
    have "cell ?cols (realign (columns a) ?cols r) = cell (columns a) r"
      unfolding realign_def by (rule cell_realigned) auto
    then show ?thesis by (simp add: cell_convert_row realign_def)
  qed
  have b: "cell ?cols (convert_row f ?cols (realign (columns b) ?cols r)) =
           converted f ?cols (cell (columns b) r)" for r f
  proof -
    have "cell ?cols (realign (columns b) ?cols r) = cell (columns b) r"
      unfolding realign_def by (rule cell_realigned) auto
    then show ?thesis by (simp add: cell_convert_row realign_def)
  qed
  show ?thesis
    by (simp add: row_views_def concat_frames_def Let_def a b)
qed

lemma drop_masked_filter:
  "map fst (filter (\<lambda>rm. \<not> snd rm) (zip rs (map f rs))) = filter (\<lambda>r. \<not> f r) rs"
  by (induction rs) auto

lemma drop_masked_isin:
  "drop_masked df (isin (map (\<lambda>r. cell (columns df) r c) (data_rows df)) ks) =
   df\<lparr>data_rows := filter (\<lambda>r. cell (columns df) r c \<notin> set ks) (data_rows df)\<rparr>"
  using drop_masked_filter[of "data_rows df" "\<lambda>r. cell (columns df) r c \<in> set ks"]
  by (simp add: drop_masked_def isin_def comp_def)

lemma wf_frame_filter:
  "wf_frame df \<Longrightarrow> wf_frame (df\<lparr>data_rows := filter P (data_rows df)\<rparr>)"
  by (simp add: wf_frame_def)

lemma row_views_filter:
  "row_views (df\<lparr>data_rows := filter (\<lambda>r. P (cell (columns df) r)) (data_rows df)\<rparr>) =
   filter P (row_views df)"
  by (simp add: row_views_def filter_map comp_def)

lemma get_column_views:
  "c \<in> set (columns df) \<Longrightarrow> get_column df c = Inr (map (\<lambda>v. v c) (row_views df))"
  by (simp add: get_column_def row_views_def)

text \<open>The frame that an update concatenates and reorders.\<close>

lemma merged_frame_update:
  assumes "''event_key'' \<in> set (columns (read_excel pd written))"
    and "''event_key'' \<in> set (columns incoming)"
    and "\<forall>v \<in> set (row_views incoming). hashable (event_of v)"
    and "mode \<noteq> ''replace''"
  shows "merged_frame pd incoming mode (Some written) =
         Inr (concat_frames pd
                ((read_excel pd written)\<lparr>data_rows :=
                   filter (\<lambda>r. cell (columns (read_excel pd written)) r ''event_key'' \<notin>
                                  event_of ` set (row_views incoming))
                     (data_rows (read_excel pd written))\<rparr>)
                incoming)"
proof -
  let ?e = "read_excel pd written"
  have old: "get_column ?e ''event_key'' =
        Inr (map (\<lambda>r. cell (columns ?e) r ''event_key'') (data_rows ?e))"
    using assms(1) by (simp add: get_column_def)
  have new: "get_column incoming ''event_key'' =
        Inr (map (\<lambda>v. v ''event_key'') (row_views incoming))"
    using assms(2) by (rule get_column_views)
  have u: "unique (map (\<lambda>v. v ''event_key'') (row_views incoming)) =
           Inr (first_seen (map (\<lambda>v. v ''event_key'') (row_views incoming)))"
    using assms(3) by (intro unique_hashable) (auto simp: event_of_def)
  have s: "set (first_seen (map (\<lambda>v. v ''event_key'') (row_views incoming))) =
           event_of ` set (row_views incoming)"
    by (auto simp: event_of_def)
  show ?thesis
    using assms(4)
    by (simp add: merged_frame_def ebind_def Let_def old new u drop_masked_isin s
        del: set_first_seen set_map)
qed

lemma reorder_columns_result:
  assumes "wf_frame df"
  shows "\<exists>df'. reorder_columns df = Inr df' \<and> columns df' = new_order (columns df) \<and>
               row_views df' = row_views df"
proof -
  have "row_views \<lparr>columns = new_order (columns df),
          data_rows = map (\<lambda>r. map (cell (columns df) r) (new_order (columns df)))
                        (data_rows df)\<rparr> = row_views df"
    by (simp only: row_views_reordered) (simp add: row_views_def)
  then show ?thesis by (simp add: reorder_columns_wf[OF assms])
qed

lemma update_file_result:
  assumes "merged_frame pd incoming mode file = Inr df" and "wf_frame df"
  shows "\<exists>df'. update_file pd incoming mode file = (Inr (), Some df') \<and>
               columns df' = new_order (columns df) \<and> row_views df' = row_views df"
proof -
  from reorder_columns_result[OF assms(2)] obtain df' where
    "reorder_columns df = Inr df'" "columns df' = new_order (columns df)"
    "row_views df' = row_views df" by blast
  with assms(1) show ?thesis by (simp add: update_file_def ebind_def)
qed

text \<open>The frame built from a batch of rows is well formed.\<close>

lemma distinct_fold_keys:
  "distinct cs \<Longrightarrow>
   distinct (fold (\<lambda>kv cs. if fst kv \<in> set cs then cs else cs @ [fst kv]) r cs)"
  by (induction r arbitrary: cs) auto

lemma distinct_union_keys: "distinct cs \<Longrightarrow> distinct (union_keys rs cs)"
  by (induction rs cs rule: union_keys.induct) (auto simp: distinct_fold_keys)

lemma wf_DataFrame: "wf_frame (DataFrame pd all_rows)"
  by (simp add: wf_frame_def DataFrame_def Let_def distinct_union_keys convert_row_def)

lemma event_of_triple: "fst (triple v) = event_of v"
  by (simp add: triple_def event_of_def)

lemma distinct_triples_append:
  assumes "distinct (map triple xs)" and "distinct (map triple ys)"
    and "\<forall>x \<in> set xs. event_of x \<notin> event_of ` set ys"
  shows "distinct (map triple (xs @ ys))"
proof -
  have "triple x \<noteq> triple y" if "x \<in> set xs" "y \<in> set ys" for x y
  proof
    assume "triple x = triple y"
    then have "event_of x = event_of y" by (metis event_of_triple)
    with that assms(3) show False by auto
  qed
  then have "set (map triple xs) \<inter> set (map triple ys) = {}" by fastforce
  with assms(1,2) show ?thesis by (simp only: map_append distinct_append)
qed

subsection \<open>The rows of a batch\<close>

lemma rows_of_contributing:
  "rows_of m = (if contributing m then expected_rows (case m of JDict d \<Rightarrow> d | _ \<Rightarrow> []) else [])"
proof (cases m)
  case (JDict d)
  show ?thesis
  proof (cases "complete d")
    case True
    show ?thesis
    proof (cases "well_shaped d")
      case True
      with \<open>complete d\<close> JDict show ?thesis
        using process_match_ok[of d] by (simp add: rows_of_def del: process_match.simps)
    next
      case False
      with \<open>complete d\<close> JDict show ?thesis
        using process_match_bad[of d] by (auto simp: rows_of_def simp del: process_match.simps)
    qed
  next
    case False
    with JDict show ?thesis
      using process_match_incomplete[of d] by (simp add: rows_of_def del: process_match.simps)
  qed
qed (simp_all add: rows_of_def)

lemma concat_rows_of:
  "concat (map rows_of ms) = concat (map rows_of (filter contributing ms))"
  by (induction ms) (simp_all add: rows_of_contributing)

lemma fetch_event_matches_rows:
  assumes "iterable_body resp"
  shows "\<exists>errs'. fetch_event_matches ek errs resp =
           Inr (concat (map rows_of (response_matches resp)), errs')"
proof (cases "status_code resp = 200")
  case True
  show ?thesis
  proof (cases "json_body resp")
    case None
    with True show ?thesis by (simp add: fetch_event_matches_def response_matches_def)
  next
    case (Some body)
    with True assms obtain ms where "py_iter body = Inr ms"
      by (auto simp: iterable_body_def split: sum.splits)
    with True Some show ?thesis
      by (simp add: fetch_event_matches_def response_matches_def ebind_def match_loop_eq)
  qed
next
  case False
  then show ?thesis by (simp add: fetch_event_matches_def response_matches_def)
qed

lemma collect_loop_rows:
  assumes "\<forall>ek \<in> set events. iterable_body (transport ek)"
  shows "\<exists>errs'. collect_loop events transport acc errs =
           Inr (acc @ concat (map rows_of (batch_matches events transport)), errs')"
  using assms
proof (induction events arbitrary: acc errs)
  case Nil
  then show ?case by (simp add: batch_matches_def)
next
  case (Cons ek events)
  from Cons.prems have "iterable_body (transport ek)" by simp
  from fetch_event_matches_rows[OF this, of ek errs] obtain e1 where
    f: "fetch_event_matches ek errs (transport ek) =
          Inr (concat (map rows_of (response_matches (transport ek))), e1)" by blast
  from Cons.prems have "\<forall>ek \<in> set events. iterable_body (transport ek)" by simp
  from Cons.IH[OF this, of "acc @ concat (map rows_of (response_matches (transport ek)))" e1]
  obtain e2 where
    "collect_loop events transport
       (acc @ concat (map rows_of (response_matches (transport ek)))) e1 =
     Inr ((acc @ concat (map rows_of (response_matches (transport ek)))) @
          concat (map rows_of (batch_matches events transport)), e2)" by blast
  with f show ?case by (simp add: ebind_def batch_matches_def)
qed

lemma map_of_common_loop:
  assumes "distinct (map fst m)" and "k \<notin> IGNORE_TOP_KEYS"
    and "k \<noteq> ''alliances''" and "k \<noteq> ''score_breakdown''"
  shows "map_of (common_loop m cd) k = (case map_of m k of Some v \<Rightarrow> Some v | None \<Rightarrow> map_of cd k)"
  using assms(1)
proof (induction m cd rule: common_loop.induct)
  case (2 k' v rest cd)
  then have nk: "k' \<notin> fst ` set rest" and d: "distinct (map fst rest)" by auto
  show ?case
  proof (cases "k' = k")
    case True
    with nk have "map_of rest k = None" by (simp add: map_of_eq_None_iff)
    with True 2 d assms(2,3,4) show ?thesis by simp
  next
    case False
    with 2 d show ?thesis by (auto split: option.splits)
  qed
qed simp

lemma key3_expected_row:
  assumes "names_kept (JDict m)" and "c = ''red'' \<or> c = ''blue''"
  shows "key3 (expected_row c (common_fields m) a (dict_get m ''score_breakdown'' JNull)) =
         (fst (match_id (JDict m)), JStr (snd (match_id (JDict m))), JStr c)"
proof -
  let ?r = "expected_row c (common_fields m) a (dict_get m ''score_breakdown'' JNull)"
  let ?b = "base_row c (common_fields m) (alliance_data_of a c)"
  from assms have nk: "''event_key'' \<notin> breakdown_keys m c" "''match'' \<notin> breakdown_keys m c"
    "''alliance'' \<notin> breakdown_keys m c" by auto
  have d: "distinct (map fst m)" using assms(1) by simp
  have e: "map_of ?r ''event_key'' = map_of ?b ''event_key''"
    by (rule expected_row_plain_field[OF nk(1)]) (simp_all add: reef_name_def)
  have mt: "map_of ?r ''match'' = map_of ?b ''match''"
    by (rule expected_row_plain_field[OF nk(2)]) (simp_all add: reef_name_def)
  have al: "map_of ?r ''alliance'' = map_of ?b ''alliance''"
    by (rule expected_row_plain_field[OF nk(3)]) (simp_all add: reef_name_def)
  have be: "map_of ?b ''event_key'' = map_of m ''event_key''"
    using map_of_common_loop[OF d, of "''event_key''" "[]"]
    by (simp add: base_row_def Let_def common_fields_def IGNORE_TOP_KEYS_def
        split: option.splits)
  have bm: "map_of ?b ''match'' = Some (JStr (snd (match_id (JDict m))))"
    by (simp add: base_row_def Let_def common_fields_def)
  have ba: "map_of ?b ''alliance'' = Some (JStr c)"
    by (simp add: base_row_def Let_def)
  have E: "dict_get ?r ''event_key'' nan = dict_get m ''event_key'' nan"
    using e be by (simp add: dict_get_def[of ?r] dict_get_def[of m "''event_key''"])
  have M: "dict_get ?r ''match'' nan = JStr (snd (match_id (JDict m)))"
    using mt bm by (simp add: dict_get_def[of ?r])
  have A: "dict_get ?r ''alliance'' nan = JStr c"
    using al ba by (simp add: dict_get_def[of ?r])
  show ?thesis
    unfolding key3_def E M A by simp
qed

lemma key3_rows_of:
  assumes "contributing m" and "names_kept m"
  shows "map key3 (rows_of m) =
         [(fst (match_id m), JStr (snd (match_id m)), JStr ''red''),
          (fst (match_id m), JStr (snd (match_id m)), JStr ''blue'')]"
proof (cases m)
  case (JDict d)
  with assms have "names_kept (JDict d)" by simp
  from key3_expected_row[OF this, of "''red''"] key3_expected_row[OF this, of "''blue''"]
  show ?thesis using assms(1) JDict
    by (simp add: rows_of_contributing expected_rows_def)
qed (use assms in simp_all)

lemma distinct_key3_rows:
  assumes "distinct (map match_id cs)" and "\<forall>m \<in> set cs. contributing m \<and> names_kept m"
  shows "distinct (map key3 (concat (map rows_of cs)))"
  using assms
proof (induction cs)
  case (Cons m cs)
  have head: "map key3 (rows_of m) =
         [(fst (match_id m), JStr (snd (match_id m)), JStr ''red''),
          (fst (match_id m), JStr (snd (match_id m)), JStr ''blue'')]"
    using Cons.prems(2) by (intro key3_rows_of) simp_all
  have tail: "set (map key3 (concat (map rows_of cs))) \<subseteq>
              (\<lambda>(x, c). (fst (match_id x), JStr (snd (match_id x)), JStr c)) ` (set cs \<times> UNIV)"
  proof
    fix t assume "t \<in> set (map key3 (concat (map rows_of cs)))"
    then obtain x where x: "x \<in> set cs" and t: "t \<in> set (map key3 (rows_of x))" by auto
    from x Cons.prems(2) have "contributing x" "names_kept x" by auto
    from key3_rows_of[OF this] t
    show "t \<in> (\<lambda>(x, c). (fst (match_id x), JStr (snd (match_id x)), JStr c)) ` (set cs \<times> UNIV)"
      using x by auto
  qed
  have new: "match_id m \<notin> match_id ` set cs" using Cons.prems(1) by simp
  have disj: "(fst (match_id m), JStr (snd (match_id m)), JStr c) \<notin>
              set (map key3 (concat (map rows_of cs)))" for c
  proof
    assume "(fst (match_id m), JStr (snd (match_id m)), JStr c) \<in>
            set (map key3 (concat (map rows_of cs)))"
    with tail have "(fst (match_id m), JStr (snd (match_id m)), JStr c) \<in>
        (\<lambda>(x, c). (fst (match_id x), JStr (snd (match_id x)), JStr c)) ` (set cs \<times> UNIV)"
      by blast
    then obtain x c' where "x \<in> set cs"
      "(fst (match_id m), JStr (snd (match_id m)), JStr c) =
       (fst (match_id x), JStr (snd (match_id x)), JStr c')" by auto
    then have "x \<in> set cs" "fst (match_id x) = fst (match_id m)"
      "snd (match_id x) = snd (match_id m)" by simp_all
    then have "match_id m \<in> match_id ` set cs" by (metis image_eqI prod_eqI)
    with new show False by simp
  qed
  have "distinct (map key3 (concat (map rows_of cs)))"
    using Cons by simp
  with head disj show ?case by simp
qed simp

lemma set_fold_keys:
  "set (fold (\<lambda>kv cs. if fst kv \<in> set cs then cs else cs @ [fst kv]) r cs) = set cs \<union> keys r"
  by (induction r arbitrary: cs) auto

lemma set_union_keys: "set (union_keys rs cs) = set cs \<union> \<Union> (keys ` set rs)"
  by (induction rs cs rule: union_keys.induct) (auto simp: set_fold_keys)

lemma row_views_DataFrame:
  "row_views (DataFrame pd all_rows) =
   map (\<lambda>r. converted (frame_cell pd) (columns (DataFrame pd all_rows)) (\<lambda>c. dict_get r c nan))
     all_rows"
proof -
  let ?cols = "union_keys all_rows []"
  have "cell ?cols (convert_row f ?cols (map (\<lambda>c. dict_get r c nan) ?cols)) =
        converted f ?cols (\<lambda>c. dict_get r c nan)" for r f
  proof -
    have "cell ?cols (map (\<lambda>c. dict_get r c nan) ?cols) c =
          (if c \<in> set ?cols then dict_get r c nan else nan)" for c
      by (simp add: cell_def map_of_zip_map)
    then show ?thesis
      by (auto simp: cell_convert_row converted_def fun_eq_iff)
  qed
  then show ?thesis by (simp add: row_views_def DataFrame_def Let_def)
qed

lemma is_str_dict_get: "is_str (dict_get r k nan) \<Longrightarrow> k \<in> keys r"
  by (auto simp: dict_get_def nan_def keys_def split: option.splits dest: map_of_SomeD
      intro: rev_image_eqI)

lemma triple_DataFrame_view:
  assumes "keeps_strings f" and "r \<in> set all_rows"
    and "is_str (dict_get r ''event_key'' nan)" and "is_str (dict_get r ''match'' nan)"
    and "is_str (dict_get r ''alliance'' nan)"
  shows "triple (converted f (columns (DataFrame pd all_rows)) (\<lambda>c. dict_get r c nan)) = key3 r"
proof -
  have in_cols: "k \<in> set (columns (DataFrame pd all_rows))" if "is_str (dict_get r k nan)" for k
    using is_str_dict_get[OF that] assms(2)
    by (auto simp: DataFrame_def Let_def set_union_keys)
  have keep: "f k (dict_get r k nan) = dict_get r k nan" if "is_str (dict_get r k nan)" for k
    using that assms(1) by (cases "dict_get r k nan") (simp_all add: keeps_strings_def)
  show ?thesis
    using assms(3,4,5) by (simp add: triple_def key3_def converted_def in_cols keep)
qed

subsection \<open>What is written\<close>

lemma is_str_cell: "is_str (cell cs r c) \<Longrightarrow> c \<in> set cs"
  by (rule ccontr) (simp add: cell_outside nan_def)

lemma triple_converted:
  assumes "keeps_strings f" and "set cs \<subseteq> set cols"
    and "is_str (cell cs r ''event_key'')" and "is_str (cell cs r ''match'')"
    and "is_str (cell cs r ''alliance'')"
  shows "triple (converted f cols (cell cs r)) = triple (cell cs r)"
proof -
  have "converted f cols (cell cs r) k = cell cs r k" if "is_str (cell cs r k)" for k
  proof -
    from is_str_cell[OF that] assms(2) have "k \<in> set cols" by auto
    with that assms(1) show ?thesis
      by (cases "cell cs r k") (simp_all add: converted_def keeps_strings_def)
  qed
  with assms(3,4,5) show ?thesis by (simp add: triple_def)
qed

lemma triples_converted:
  assumes "keeps_strings f" and "string_triples df" and "set (columns df) \<subseteq> set cols"
    and "set vs \<subseteq> set (row_views df)"
  shows "map triple (map (converted f cols) vs) = map triple vs"
proof -
  have "triple (converted f cols v) = triple v" if "v \<in> set vs" for v
  proof -
    from that assms(4) obtain r where v: "v = cell (columns df) r" and "v \<in> set (row_views df)"
      by (auto simp: row_views_def)
    with assms(2) have "is_str (v ''event_key'')" "is_str (v ''match'')" "is_str (v ''alliance'')"
      by (auto simp: string_triples_def)
    then show ?thesis unfolding v by (intro triple_converted assms(1,3))
  qed
  then show ?thesis by simp
qed

text \<open>The frame built from the batch of an identified list of matches.\<close>

lemma batch_rows_strings:
  assumes "identified ms" and "r \<in> set (concat (map rows_of ms))"
  shows "is_str (dict_get r ''event_key'' nan) \<and> is_str (dict_get r ''match'' nan) \<and>
         is_str (dict_get r ''alliance'' nan)"
proof -
  from assms(2) obtain m where m: "m \<in> set (filter contributing ms)" and r: "r \<in> set (rows_of m)"
    by (auto simp: concat_rows_of[of ms])
  with assms(1) have c: "contributing m" and n: "names_kept m" by (auto simp: identified_def)
  from n have "is_str (fst (match_id m))" by (cases m) simp_all
  moreover from r have "key3 r \<in> set (map key3 (rows_of m))" by simp
  ultimately show ?thesis
    unfolding key3_rows_of[OF c n] by (auto simp: key3_def)
qed

lemma batch_frame:
  assumes "keeps_strings (frame_cell pd)" and "identified ms"
  shows "unique_triples (DataFrame pd (concat (map rows_of ms)))"
    and "string_triples (DataFrame pd (concat (map rows_of ms)))"
proof -
  let ?rows = "concat (map rows_of ms)"
  have t: "triple (converted (frame_cell pd) (columns (DataFrame pd ?rows))
             (\<lambda>c. dict_get r c nan)) = key3 r" if "r \<in> set ?rows" for r
    using batch_rows_strings[OF assms(2) that] that
    by (intro triple_DataFrame_view assms(1)) simp_all
  then have m: "map triple (row_views (DataFrame pd ?rows)) = map key3 ?rows"
    by (simp add: row_views_DataFrame)
  have "distinct (map key3 (concat (map rows_of (filter contributing ms))))"
    using assms(2) by (intro distinct_key3_rows) (auto simp: identified_def)
  then have "distinct (map key3 ?rows)"
    by (simp only: concat_rows_of[of ms])
  then show "unique_triples (DataFrame pd ?rows)"
    by (simp only: unique_triples_def m)
  show "string_triples (DataFrame pd ?rows)"
    unfolding string_triples_def row_views_DataFrame
  proof
    fix v
    assume "v \<in> set (map (\<lambda>r. converted (frame_cell pd) (columns (DataFrame pd ?rows))
                               (\<lambda>c. dict_get r c nan)) ?rows)"
    then obtain r where r: "r \<in> set ?rows"
      and v: "v = converted (frame_cell pd) (columns (DataFrame pd ?rows)) (\<lambda>c. dict_get r c nan)"
      by auto
    from t[OF r] batch_rows_strings[OF assms(2) r]
    show "is_str (v ''event_key'') \<and> is_str (v ''match'') \<and> is_str (v ''alliance'')"
      unfolding v by (simp add: triple_def key3_def)
  qed
qed

lemma string_triples_hashable:
  "string_triples df \<Longrightarrow> \<forall>v \<in> set (row_views df). hashable (event_of v)"
proof
  fix v assume "string_triples df" "v \<in> set (row_views df)"
  then have "is_str (event_of v)" by (simp add: string_triples_def event_of_def)
  then show "hashable (event_of v)" by (cases "event_of v") simp_all
qed

lemma string_triples_event_column:
  assumes "string_triples df" and "data_rows df \<noteq> []"
  shows "''event_key'' \<in> set (columns df)"
proof -
  from assms(2) obtain r where "r \<in> set (data_rows df)" by (cases "data_rows df") auto
  then have "cell (columns df) r \<in> set (row_views df)" by (simp add: row_views_def)
  with assms(1) have "is_str (cell (columns df) r ''event_key'')"
    by (simp add: string_triples_def)
  then show ?thesis by (rule is_str_cell)
qed

text \<open>What \<^verbatim>\<open>update_file\<close> writes, in its two branches.\<close>

lemma update_file_new_only:
  assumes "wf_frame incoming" and "fs = None \<or> mode = ''replace''"
  shows "\<exists>df. update_file pd incoming mode fs = (Inr (), Some df) \<and>
              row_views df = row_views incoming"
proof -
  from assms(2) have "merged_frame pd incoming mode fs = Inr incoming"
    by (auto simp: merged_frame_def split: option.splits)
  from update_file_result[OF this assms(1)] show ?thesis by blast
qed

lemma update_file_merge:
  assumes "wf_frame (read_excel pd written)" and "wf_frame incoming"
    and "''event_key'' \<in> set (columns (read_excel pd written))"
    and "''event_key'' \<in> set (columns incoming)"
    and "\<forall>v \<in> set (row_views incoming). hashable (event_of v)"
    and "mode \<noteq> ''replace''"
  shows "\<exists>df. update_file pd incoming mode (Some written) = (Inr (), Some df) \<and>
           set (columns df) = set (columns (read_excel pd written)) \<union> set (columns incoming) \<and>
           row_views df =
             map (converted (concat_cell pd) (columns df))
               (filter (\<lambda>v. event_of v \<notin> event_of ` set (row_views incoming))
                  (row_views (read_excel pd written))
                @ row_views incoming)"
proof -
  let ?e = "read_excel pd written"
  let ?kept = "?e\<lparr>data_rows :=
                 filter (\<lambda>r. cell (columns ?e) r ''event_key'' \<notin>
                                event_of ` set (row_views incoming)) (data_rows ?e)\<rparr>"
  let ?old = "filter (\<lambda>v. event_of v \<notin> event_of ` set (row_views incoming)) (row_views ?e)"
  have m: "merged_frame pd incoming mode (Some written) =
           Inr (concat_frames pd ?kept incoming)"
    using assms(3,4,5,6) by (intro merged_frame_update)
  have wf: "wf_frame (concat_frames pd ?kept incoming)"
    using assms(1,2) by (intro wf_concat_frames wf_frame_filter)
  from update_file_result[OF m wf] obtain df where
    u: "update_file pd incoming mode (Some written) = (Inr (), Some df)" and
    c: "columns df = new_order (columns (concat_frames pd ?kept incoming))" and
    v: "row_views df = row_views (concat_frames pd ?kept incoming)"
    by blast
  have cols: "set (columns df) = set (columns ?e) \<union> set (columns incoming)"
    using c by (simp add: set_new_order columns_concat_frames)
  have k: "row_views ?kept = ?old"
    using row_views_filter[where df = ?e
        and P = "\<lambda>v. event_of v \<notin> event_of ` set (row_views incoming)"]
    by (simp add: event_of_def)
  have same: "converted f (columns df) = converted f (columns (concat_frames pd ?kept incoming))"
    for f
    using c by (simp add: converted_def set_new_order fun_eq_iff)
  have rows: "row_views df =
      map (converted (concat_cell pd) (columns df)) (?old @ row_views incoming)"
    unfolding v row_views_concat_frames same k ..
  from u cols rows show ?thesis by blast
qed


lemma update_file_merge_triples:
  assumes "dataset_ok (read_excel pd written)" and "wf_frame incoming"
    and "unique_triples incoming" and "string_triples incoming"
    and "''event_key'' \<in> set (columns incoming)"
    and "keeps_strings (concat_cell pd)" and "mode \<noteq> ''replace''"
  shows "\<exists>df. update_file pd incoming mode (Some written) = (Inr (), Some df) \<and>
              unique_triples df"
proof -
  let ?e = "read_excel pd written"
  let ?old = "filter (\<lambda>v. event_of v \<notin> event_of ` set (row_views incoming)) (row_views ?e)"
  from assms(1) have e: "wf_frame ?e" "''event_key'' \<in> set (columns ?e)" "unique_triples ?e"
    "string_triples ?e" by (simp_all add: dataset_ok_def)
  from update_file_merge[OF e(1) assms(2) e(2) assms(5) string_triples_hashable[OF assms(4)]
      assms(7)]
  obtain df where
    u: "update_file pd incoming mode (Some written) = (Inr (), Some df)" and
    c: "set (columns df) = set (columns ?e) \<union> set (columns incoming)" and
    v: "row_views df = map (converted (concat_cell pd) (columns df)) (?old @ row_views incoming)"
    by blast
  have "map triple (map (converted (concat_cell pd) (columns df)) ?old) = map triple ?old"
    using c by (intro triples_converted[OF assms(6) e(4)]) auto
  moreover have "map triple (map (converted (concat_cell pd) (columns df)) (row_views incoming)) =
                 map triple (row_views incoming)"
    using c by (intro triples_converted[OF assms(6) assms(4)]) auto
  ultimately have t: "map triple (row_views df) = map triple (?old @ row_views incoming)"
    by (simp add: v)
  have "distinct (map triple (?old @ row_views incoming))"
  proof (rule distinct_triples_append)
    show "distinct (map triple ?old)"
      using e(3) by (simp add: unique_triples_def distinct_map_filter)
    show "distinct (map triple (row_views incoming))"
      using assms(3) by (simp add: unique_triples_def)
    show "\<forall>x \<in> set ?old. event_of x \<notin> event_of ` set (row_views incoming)" by simp
  qed
  with t have "unique_triples df" by (simp add: unique_triples_def)
  with u show ?thesis by blast
qed

text \<open>
  C9. For every well-formed frame with the columns \<^verbatim>\<open>event_key\<close>, \<^verbatim>\<open>match\<close> and
  \<^verbatim>\<open>winning_alliance\<close>, \<^verbatim>\<open>reorder_columns\<close> returns a frame whose first three columns
  are these, in this order, followed by the other columns in their former order; the rows
  keep their cells.
\<close>

theorem reorder_columns_pins_three:
  assumes "wf_frame df"
    and "{''event_key'', ''match'', ''winning_alliance''} \<subseteq> set (columns df)"
  shows "\<exists>df'. reorder_columns df = Inr df' \<and>
           take 3 (columns df') = [''event_key'', ''match'', ''winning_alliance''] \<and>
           drop 3 (columns df') =
             filter (\<lambda>c. c \<notin> {''event_key'', ''match'', ''winning_alliance''}) (columns df) \<and>
           row_views df' = row_views df"
proof -
  from assms have "new_order (columns df) =
                   pinned @ filter (\<lambda>c. c \<notin> set pinned) (columns df)"
    by (intro new_order_all_present) (auto simp: wf_frame_def pinned_def)
  then have "new_order (columns df) =
             [''event_key'', ''match'', ''winning_alliance''] @
             filter (\<lambda>c. c \<notin> {''event_key'', ''match'', ''winning_alliance''}) (columns df)"
    by (simp add: pinned_def)
  moreover from reorder_columns_result[OF assms(1)] obtain df' where
    "reorder_columns df = Inr df'" "columns df' = new_order (columns df)"
    "row_views df' = row_views df" by blast
  ultimately show ?thesis by simp
qed

theorem reorder_columns_pins_three_witness:
  "wf_frame frame_incoming \<and>
   {''event_key'', ''match'', ''winning_alliance''} \<subseteq> set (columns frame_incoming) \<and>
   (\<exists>df'. reorder_columns frame_incoming = Inr df' \<and>
      columns df' = [''event_key'', ''match'', ''winning_alliance'', ''alliance'', ''bar''])"
proof -
  have w: "wf_frame frame_incoming" by (simp add: wf_frame_def frame_incoming_def)
  have p: "{''event_key'', ''match'', ''winning_alliance''} \<subseteq> set (columns frame_incoming)"
    by (simp add: frame_incoming_def)
  from reorder_columns_pins_three[OF w p] obtain df' where
    r: "reorder_columns frame_incoming = Inr df'" and
    t: "take 3 (columns df') = [''event_key'', ''match'', ''winning_alliance'']" and
    d: "drop 3 (columns df') =
          filter (\<lambda>c. c \<notin> {''event_key'', ''match'', ''winning_alliance''})
            (columns frame_incoming)"
    by blast
  from d have "drop 3 (columns df') = [''alliance'', ''bar'']"
    by (simp add: frame_incoming_def)
  with t have "columns df' = [''event_key'', ''match'', ''winning_alliance'', ''alliance'', ''bar'']"
    by (metis append_take_drop_id append_Cons append_Nil)
  with w p r show ?thesis by blast
qed




text \<open>It does so whatever pandas does to the cells, and whatever the file holds.\<close>

lemma upsert_without_event_key_any_pandas:
  "update_file pd (DataFrame pd (rows_of (JDict match_top_totalPoints))) ''update''
       (Some written) =
     (Inl (KeyError (JStr ''event_key'')), Some written)"
proof -
  have "''event_key'' \<notin> set (union_keys (rows_of (JDict match_top_totalPoints)) [])"
    by code_simp
  then show ?thesis
    by (simp add: update_file_def merged_frame_def DataFrame_def get_column_def ebind_def Let_def)
qed

text \<open>
  C7 (amended). When the matches of a batch that contribute rows are identified, the
  fetched bodies can be iterated and pandas leaves string cells as they are, the dataset
  written has at most one row per (event, match, alliance) triple: the one
  \<^verbatim>\<open>load_all_events\<close> writes always, the one \<^verbatim>\<open>add_replace_selected\<close> writes when the
  existing dataset, as read back, is well formed, has the \<^verbatim>\<open>event_key\<close> column and has
  itself at most one row per triple, its triples being strings.
\<close>

theorem pipeline_triples_unique:
  assumes "keeps_strings (frame_cell pd)" and "keeps_strings (concat_cell pd)"
    and "\<forall>ek \<in> set events. iterable_body (transport ek)"
    and "identified (batch_matches events transport)"
    and "\<exists>m \<in> set (batch_matches events transport). contributing m"
  shows "(\<exists>shown df. load_all_events pd events transport file = (Inr shown, Some df) \<and>
                     unique_triples df) \<and>
         ((\<forall>written. file = Some written \<longrightarrow> dataset_ok (read_excel pd written)) \<longrightarrow>
          (\<exists>shown df. add_replace_selected pd events transport file = (Inr shown, Some df) \<and>
                      unique_triples df))"
proof -
  let ?ms = "batch_matches events transport"
  let ?rows = "concat (map rows_of ?ms)"
  let ?new = "DataFrame pd ?rows"
  from collect_loop_rows[OF assms(3), of "[]" "[]"] obtain errs where
    col: "collect_loop events transport [] [] = Inr (?rows, errs)" by auto
  from assms(5) obtain m where m: "m \<in> set ?ms" "contributing m" by blast
  then have "rows_of m \<noteq> []" by (simp add: rows_of_contributing expected_rows_def)
  with m(1) have ne: "?rows \<noteq> []" by auto
  from m(1) have ev: "events \<noteq> []" by (auto simp: batch_matches_def)
  have wf: "wf_frame ?new" by (rule wf_DataFrame)
  have uq: "unique_triples ?new" and st: "string_triples ?new"
    using batch_frame[OF assms(1,4)] by simp_all
  have "data_rows ?new \<noteq> []" using ne by (simp add: DataFrame_def Let_def)
  with st have ek: "''event_key'' \<in> set (columns ?new)" by (rule string_triples_event_column)
  have replace: "\<exists>shown df. load_all_events pd events transport file = (Inr shown, Some df) \<and>
                   unique_triples df"
  proof -
    from update_file_new_only[OF wf, where fs = "file" and mode = "''replace''" and pd = pd] obtain df where
      "update_file pd ?new ''replace'' file = (Inr (), Some df)" "row_views df = row_views ?new"
      by auto
    with uq col ne show ?thesis
      by (simp add: load_all_events_def write_batch_def unique_triples_def)
  qed
  have update: "\<exists>shown df. add_replace_selected pd events transport file = (Inr shown, Some df) \<and>
                   unique_triples df"
    if ok: "\<forall>written. file = Some written \<longrightarrow> dataset_ok (read_excel pd written)"
  proof -
    have "\<exists>df. update_file pd ?new ''update'' file = (Inr (), Some df) \<and> unique_triples df"
    proof (cases "file")
      case None
      from update_file_new_only[OF wf, where fs = "file" and mode = "''update''" and pd = pd] None obtain df where
        "update_file pd ?new ''update'' file = (Inr (), Some df)"
        "row_views df = row_views ?new" by auto
      with uq show ?thesis by (auto simp: unique_triples_def)
    next
      case (Some written)
      with ok have "dataset_ok (read_excel pd written)" by simp
      from update_file_merge_triples[OF this wf uq st ek assms(2), of "''update''"] Some
      show ?thesis by simp
    qed
    with col ne ev show ?thesis
      by (auto simp: add_replace_selected_def write_batch_def)
  qed
  from replace update show ?thesis by blast
qed

theorem pipeline_triples_unique_witness:
  "keeps_strings (frame_cell pd_demo) \<and> keeps_strings (concat_cell pd_demo) \<and>
   iterable_body (demo_event ''2025demo'') \<and>
   identified (batch_matches [''2025demo''] demo_event) \<and>
   contributing (JDict match_qm5) \<and>
   JDict match_qm5 \<in> set (batch_matches [''2025demo''] demo_event) \<and>
   dataset_ok (read_excel pd_demo frame_existing) \<and>
   (\<exists>shown df. load_all_events pd_demo [''2025demo''] demo_event (Some frame_existing)
                 = (Inr shown, Some df) \<and> unique_triples df) \<and>
   (\<exists>shown df. add_replace_selected pd_demo [''2025demo''] demo_event (Some frame_existing)
                 = (Inr shown, Some df) \<and> unique_triples df)"
proof -
  have k: "keeps_strings (frame_cell pd_demo)" "keeps_strings (concat_cell pd_demo)"
    by (simp_all add: keeps_strings_def demo_defs)
  have i: "iterable_body (demo_event ''2025demo'')"
    by (simp add: iterable_body_def demo_event_def ok_response_def)
  have b: "batch_matches [''2025demo''] demo_event =
           [JDict match_qm5, JInt 3, JDict (match_sf 1), JDict match_no_breakdown]"
    by (simp add: batch_matches_def response_matches_def demo_event_def ok_response_def)
  have d: "identified (batch_matches [''2025demo''] demo_event)"
    unfolding b by code_simp
  have c: "contributing (JDict match_qm5)" by (simp add: match_qm5_def shape_defs)
  have m: "JDict match_qm5 \<in> set (batch_matches [''2025demo''] demo_event)"
    unfolding b by simp
  have e: "dataset_ok (read_excel pd_demo frame_existing)" by code_simp
  have a: "\<forall>ek \<in> set [''2025demo'']. iterable_body (demo_event ek)"
    by (simp add: iterable_body_def demo_event_def ok_response_def)
  have s: "\<exists>m \<in> set (batch_matches [''2025demo''] demo_event). contributing m"
    using c m by blast
  from pipeline_triples_unique[OF k a d s, of "Some frame_existing"] e
  have "(\<exists>shown df. load_all_events pd_demo [''2025demo''] demo_event (Some frame_existing)
                 = (Inr shown, Some df) \<and> unique_triples df) \<and>
        (\<exists>shown df. add_replace_selected pd_demo [''2025demo''] demo_event (Some frame_existing)
                 = (Inr shown, Some df) \<and> unique_triples df)"
    by simp
  with k i d c m e show ?thesis by (intro conjI) simp_all
qed

text \<open>
  As stated for every batch of the pipeline, C7 fails: the match identifier is built from
  \<^verbatim>\<open>comp_level\<close> and \<^verbatim>\<open>match_number\<close> only, so two matches of one event that differ in
  \<^verbatim>\<open>set_number\<close> give rows with equal triples, and the file written holds both.
\<close>

theorem same_match_number_duplicates_triple:
  "contributing (JDict (match_sf 1)) \<and> contributing (JDict (match_sf 2)) \<and>
   (case snd (load_all_events pd_demo [''2025demo''] two_semifinals None) of
      None \<Rightarrow> False
    | Some df \<Rightarrow> \<not> unique_triples df)"
  by code_simp

text \<open>The two red rows are the same row, so this holds whatever pandas does to the cells.\<close>

lemma not_distinct_0_2: "length xs = 4 \<Longrightarrow> xs ! 0 = xs ! 2 \<Longrightarrow> \<not> distinct xs"
proof
  assume l: "length xs = 4" and e: "xs ! 0 = xs ! 2" and d: "distinct xs"
  from nth_eq_iff_index_eq[OF d, of 0 2] l e show False by simp
qed

lemma same_match_number_duplicates_any_pandas:
  "\<exists>shown df. load_all_events pd [''2025demo''] two_semifinals None = (Inr shown, Some df) \<and>
              \<not> unique_triples df"
proof -
  define rs where "rs = concat (map rows_of [JDict (match_sf 1), JDict (match_sf 2)])"
  have same: "rs ! 0 = rs ! 2" and len: "length rs = 4"
    unfolding rs_def by code_simp+
  from len have ne: "rs \<noteq> []" by auto
  have col: "collect_loop [''2025demo''] two_semifinals [] [] = Inr (rs, [])"
    unfolding rs_def by code_simp
  have wf: "wf_frame (DataFrame pd rs)" by (rule wf_DataFrame)
  from update_file_new_only[OF wf, where fs = None and mode = "''replace''" and pd = pd]
  obtain df where u: "update_file pd (DataFrame pd rs) ''replace'' None = (Inr (), Some df)"
    and v: "row_views df = row_views (DataFrame pd rs)" by auto
  define g where "g = (\<lambda>r. triple (converted (frame_cell pd) (columns (DataFrame pd rs))
                         (\<lambda>c. dict_get r c nan)))"
  have t: "map triple (row_views df) = map g rs"
    by (simp add: v row_views_DataFrame g_def)
  have "map g rs ! 0 = map g rs ! 2"
    using same len by simp
  moreover have "length (map g rs) = 4" using len by simp
  ultimately have "\<not> distinct (map g rs)" by (intro not_distinct_0_2)
  with t have "\<not> unique_triples df" by (simp add: unique_triples_def)
  with u col ne show ?thesis
    by (simp add: load_all_events_def write_batch_def)
qed

text \<open>
  C8 (amended). An empty batch leaves the dataset as it is, but not by a reconciliation
  that returns: \<^verbatim>\<open>update_file\<close> on the empty frame raises KeyError before it writes,
  and \<^verbatim>\<open>add_replace_selected\<close> does not call it when no row was fetched, showing an error
  instead.
\<close>

theorem empty_batch_leaves_dataset:
  "update_file pd (DataFrame pd []) ''update'' (Some existing) =
     (Inl (KeyError (JStr ''event_key'')), Some existing) \<and>
   (selected \<noteq> [] \<and> collect_loop selected transport [] [] = Inr ([], errs) \<longrightarrow>
      add_replace_selected pd selected transport file =
        (Inr (ShowError ''Error'' ''No data fetched for selected events.'' #
              (if errs \<noteq> [] then [ShowErrors errs] else [])), file))"
  by (simp add: update_file_def merged_frame_def DataFrame_def get_column_def ebind_def
      add_replace_selected_def write_batch_def Let_def)

theorem empty_batch_leaves_dataset_witness:
  "collect_loop [''2025demo''] incomplete_only [] [] = Inr ([], []) \<and>
   add_replace_selected pd_demo [''2025demo''] incomplete_only (Some frame_existing) =
     (Inr [ShowError ''Error'' ''No data fetched for selected events.''], Some frame_existing)"
proof -
  have "process_match (JDict match_no_breakdown) = Inr []"
    by (simp add: match_no_breakdown_def dict_get_def)
  then have c: "collect_loop [''2025demo''] incomplete_only [] [] = Inr ([], [])"
    by (simp add: incomplete_only_def ok_response_def fetch_event_matches_def ebind_def
        del: process_match.simps)
  from empty_batch_leaves_dataset[of pd_demo frame_existing "[''2025demo'']" incomplete_only
      "[]" "Some frame_existing"] c
  show ?thesis by simp
qed

text \<open>
  As stated, C8 fails: in mode \<^verbatim>\<open>update\<close>, \<^verbatim>\<open>update_file\<close> does not return on an empty
  batch.
\<close>

theorem empty_batch_update_file_raises:
  "fst (update_file pd_demo (DataFrame pd_demo []) ''update'' (Some frame_existing)) =
     Inl (KeyError (JStr ''event_key''))"
  by (simp add: update_file_def merged_frame_def DataFrame_def get_column_def ebind_def Let_def)

end
